theory Spec2Isabelle
  imports Complex_Main
begin

section \<open>Python values used by trade\_manager.py\<close>

text \<open>
  The exceptions that the modelled code can raise.  \<open>StorageError\<close> stands for any
  \<^verbatim>\<open>sqlite3.Error\<close> raised by the storage engine.
\<close>

datatype error =
  ValueError | TypeError | KeyError | OverflowError | RuntimeError | StorageError

text \<open>
  A value read from or bound to a column of the \<^verbatim>\<open>trades\<close> table, and at the same time
  a value of a dictionary built from a row (\<^verbatim>\<open>None\<close> is \<open>Null\<close>).
\<close>

datatype sql_value = Null | Integer int | Real real | Text string

type_synonym trade_dict = "(string \<times> sql_value) list"

subsection \<open>datetime\<close>

text \<open>
  A \<^verbatim>\<open>datetime\<close> is kept as Python keeps it, field by field, except that the
  calendar date is held as its proleptic Gregorian ordinal (\<^verbatim>\<open>date.toordinal()\<close>, day 1
  is 0001-01-01), so that \<^verbatim>\<open>+ timedelta(days=1)\<close> is the successor of the ordinal.
  The year, month and day are recovered from the ordinal only for printing.  The bound of the
  calendar at year 9999 is not modelled.  A \<^verbatim>\<open>timedelta\<close> is its number of microseconds.

  All datetimes that meet in one comparison or subtraction below carry the same
  \<^verbatim>\<open>tzinfo\<close> object (the zone America/New\_York), in which case Python compares and
  subtracts the wall-clock fields and ignores the zone.
\<close>

record datetime =
  dt_ordinal :: int
  dt_hour :: int
  dt_minute :: int
  dt_second :: int
  dt_microsecond :: int

definition valid_datetime :: "datetime \<Rightarrow> bool" where
  "valid_datetime d \<longleftrightarrow>
     0 \<le> dt_hour d \<and> dt_hour d < 24 \<and> 0 \<le> dt_minute d \<and> dt_minute d < 60 \<and>
     0 \<le> dt_second d \<and> dt_second d < 60 \<and>
     0 \<le> dt_microsecond d \<and> dt_microsecond d < 1000000"

text \<open>\<^verbatim>\<open>now.replace(hour=h, minute=0, second=0, microsecond=0)\<close>: the constructor
  raises \<^verbatim>\<open>ValueError\<close> ("hour must be in 0..23") for any other hour.\<close>

definition replace_hour :: "datetime \<Rightarrow> int \<Rightarrow> error + datetime" where
  "replace_hour d h =
     (if 0 \<le> h \<and> h \<le> 23
      then Inr (d\<lparr>dt_hour := h, dt_minute := 0, dt_second := 0, dt_microsecond := 0\<rparr>)
      else Inl ValueError)"

text \<open>Comparison of two datetimes of one zone: field by field, most significant first.\<close>

definition dt_less :: "datetime \<Rightarrow> datetime \<Rightarrow> bool" where
  "dt_less a b \<longleftrightarrow>
     dt_ordinal a < dt_ordinal b \<or> (dt_ordinal a = dt_ordinal b \<and>
      (dt_hour a < dt_hour b \<or> (dt_hour a = dt_hour b \<and>
       (dt_minute a < dt_minute b \<or> (dt_minute a = dt_minute b \<and>
        (dt_second a < dt_second b \<or> (dt_second a = dt_second b \<and>
          dt_microsecond a < dt_microsecond b)))))))"

definition dt_ge :: "datetime \<Rightarrow> datetime \<Rightarrow> bool" where
  "dt_ge a b \<longleftrightarrow> \<not> dt_less a b"

text \<open>\<^verbatim>\<open>a - b\<close> of two datetimes of one zone, as the microseconds of the resulting
  timedelta: days, seconds and microseconds are subtracted separately and summed.\<close>

definition dt_sub :: "datetime \<Rightarrow> datetime \<Rightarrow> int" where
  "dt_sub a b =
     ((dt_ordinal a - dt_ordinal b) * 86400
       + ((dt_second a + dt_minute a * 60 + dt_hour a * 3600)
          - (dt_second b + dt_minute b * 60 + dt_hour b * 3600))) * 1000000
     + (dt_microsecond a - dt_microsecond b)"

text \<open>\<^verbatim>\<open>td.total_seconds() > 3600\<close>.  \<^verbatim>\<open>total_seconds\<close> is the correctly rounded
  quotient of the microseconds by \<open>10\<^sup>6\<close>; for the gaps that occur (below two days) it exceeds
  3600 exactly when the microseconds exceed 3600 times \<open>10\<^sup>6\<close>.\<close>

definition total_seconds_gt :: "int \<Rightarrow> int \<Rightarrow> bool" where
  "total_seconds_gt td s \<longleftrightarrow> td > s * 1000000"

text \<open>\<^verbatim>\<open>d + timedelta(days=n)\<close>.\<close>

definition add_days :: "datetime \<Rightarrow> int \<Rightarrow> datetime" where
  "add_days d n = d\<lparr>dt_ordinal := dt_ordinal d + n\<rparr>"

subsection \<open>The regular expression of \<^verbatim>\<open>is_trade_expired\<close>\<close>

text \<open>
  A label is a list of characters with code points below 256.  On these, \<^verbatim>\<open>\s\<close> of a
  \<^verbatim>\<open>str\<close> pattern matches the code points 9 to 13, 28 to 32, 133 and 160, \<^verbatim>\<open>\d\<close>
  matches the ten ASCII digits, and under \<^verbatim>\<open>re.IGNORECASE\<close> each letter of the pattern
  matches itself in either case.
\<close>

definition is_space :: "char \<Rightarrow> bool" where
  "is_space c \<longleftrightarrow>
     (let n = (of_char c :: nat) in (9 \<le> n \<and> n \<le> 13) \<or> (28 \<le> n \<and> n \<le> 32) \<or> n = 133 \<or> n = 160)"

definition is_digit :: "char \<Rightarrow> bool" where
  "is_digit c \<longleftrightarrow> (let n = (of_char c :: nat) in 48 \<le> n \<and> n \<le> 57)"

text \<open>\<^verbatim>\<open>str.lower\<close> on the letters A to Z (the only upper-case characters the pattern
  lets through).\<close>

definition lower_char :: "char \<Rightarrow> char" where
  "lower_char c =
     (let n = (of_char c :: nat) in if 65 \<le> n \<and> n \<le> 90 then char_of (n + 32) else c)"

definition lower :: "string \<Rightarrow> string" where
  "lower s = map lower_char s"

text \<open>\<^verbatim>\<open>int(s)\<close> on a string of ASCII digits.\<close>

definition digit_value :: "char \<Rightarrow> int" where
  "digit_value c = int (of_char c) - 48"

definition int_of_digits :: "string \<Rightarrow> int" where
  "int_of_digits s = foldl (\<lambda>acc c. acc * 10 + digit_value c) 0 s"

text \<open>\<^verbatim>\<open>(am|pm)\<close> at the head of the input: the matched text, if any.\<close>

fun match_ampm :: "string \<Rightarrow> string option" where
  "match_ampm (a # m # rest) =
     (if (lower_char a = CHR ''a'' \<or> lower_char a = CHR ''p'') \<and> lower_char m = CHR ''m''
      then Some [a, m] else None)"
| "match_ampm _ = None"

text \<open>\<^verbatim>\<open>(\d{1,2})(am|pm)\<close> at the head of the input.  The quantifier is greedy: two
  digits are tried first, and one digit only if the rest of the pattern fails after two.\<close>

fun match_hour_ampm :: "string \<Rightarrow> (string \<times> string) option" where
  "match_hour_ampm [] = None"
| "match_hour_ampm (d1 # rest) =
     (if \<not> is_digit d1 then None
      else case (case rest of
                   d2 # rest2 \<Rightarrow>
                     (if is_digit d2
                      then (case match_ampm rest2 of
                              Some ap \<Rightarrow> Some ([d1, d2], ap) | None \<Rightarrow> None)
                      else None)
                 | [] \<Rightarrow> None) of
             Some g \<Rightarrow> Some g
           | None \<Rightarrow> (case match_ampm rest of Some ap \<Rightarrow> Some ([d1], ap) | None \<Rightarrow> None))"

text \<open>\<^verbatim>\<open>\s+\<close> followed by the rest of the pattern.  All the white space has to be
  consumed, since the next item is a digit and no digit is white space.\<close>

definition match_spaces_hour_ampm :: "string \<Rightarrow> (string \<times> string) option" where
  "match_spaces_hour_ampm s =
     (if takeWhile is_space s = [] then None else match_hour_ampm (dropWhile is_space s))"

text \<open>The whole pattern \<^verbatim>\<open>BTC\s+(\d{1,2})(am|pm)\<close> anchored at the head of the input.\<close>

fun match_here :: "string \<Rightarrow> (string \<times> string) option" where
  "match_here (b # t # c # rest) =
     (if lower_char b = CHR ''b'' \<and> lower_char t = CHR ''t'' \<and> lower_char c = CHR ''c''
      then match_spaces_hour_ampm rest else None)"
| "match_here _ = None"

text \<open>\<^verbatim>\<open>re.search\<close>: the match at the leftmost position that has one; the result is
  the pair of the two groups.\<close>

fun re_search :: "string \<Rightarrow> (string \<times> string) option" where
  "re_search [] = None"
| "re_search (c # cs) =
     (case match_here (c # cs) of Some g \<Rightarrow> Some g | None \<Rightarrow> re_search cs)"

section \<open>The expiration rule\<close>

text \<open>Lines 17 to 22: the hour of the label on the 24-hour clock.\<close>

definition hour24 :: "string \<Rightarrow> string \<Rightarrow> int" where
  "hour24 digits ampm =
     (let hour = int_of_digits digits; ap = lower ampm in
      if ap = ''pm'' \<and> hour \<noteq> 12 then hour + 12
      else if ap = ''am'' \<and> hour = 12 then 0
      else hour)"

text \<open>Lines 23 to 28, after the clock has been read: \<open>now\<close> is the value of
  \<^verbatim>\<open>datetime.now(ZoneInfo('America/New_York'))\<close>.\<close>

definition expired_at :: "datetime \<Rightarrow> int \<Rightarrow> error + bool" where
  "expired_at now hour =
     (case replace_hour now hour of
        Inl e \<Rightarrow> Inl e
      | Inr expiration \<Rightarrow>
          (let expiration' =
                 (if dt_less expiration now \<and> total_seconds_gt (dt_sub now expiration) 3600
                  then add_days expiration 1 else expiration)
           in Inr (dt_ge now expiration')))"

text \<open>
  \<^verbatim>\<open>is_trade_expired(trade)\<close>, with the reading of the clock as the argument \<open>now\<close>.
  \<^verbatim>\<open>trade.get('contract', '')\<close> is \<^verbatim>\<open>''\<close> for a missing key; \<^verbatim>\<open>None\<close>, the empty
  string and the numbers zero are false; \<^verbatim>\<open>re.search\<close> raises \<^verbatim>\<open>TypeError\<close> on a
  number.
\<close>

definition is_trade_expired :: "datetime \<Rightarrow> trade_dict \<Rightarrow> error + bool" where
  "is_trade_expired now trade =
     (case (case map_of trade ''contract'' of None \<Rightarrow> Text [] | Some v \<Rightarrow> v) of
        Null \<Rightarrow> Inr False
      | Integer n \<Rightarrow> (if n = 0 then Inr False else Inl TypeError)
      | Real x \<Rightarrow> (if x = 0 then Inr False else Inl TypeError)
      | Text contract \<Rightarrow>
          (if contract = [] then Inr False
           else case re_search contract of
                  None \<Rightarrow> Inr False
                | Some (digits, ampm) \<Rightarrow> expired_at now (hour24 digits ampm)))"


subsection \<open>Clock readings and ISO 8601 text\<close>

text \<open>
  One reading of the system clock: the fields of \<^verbatim>\<open>datetime.utcnow()\<close> and the offset
  from UTC, in seconds, that the zone database gives for America/New\_York at that instant
  (\<open>-18000\<close> in winter, \<open>-14400\<close> in summer).
\<close>

record clock_reading =
  utc_now :: datetime
  ny_utcoffset :: int

text \<open>\<^verbatim>\<open>d + timedelta(seconds=s)\<close>, with the carry into the days.\<close>

definition dt_add_seconds :: "datetime \<Rightarrow> int \<Rightarrow> datetime" where
  "dt_add_seconds d s =
     (let t = dt_hour d * 3600 + dt_minute d * 60 + dt_second d + s in
      \<lparr>dt_ordinal = dt_ordinal d + t div 86400,
       dt_hour = (t mod 86400) div 3600,
       dt_minute = (t mod 3600) div 60,
       dt_second = t mod 60,
       dt_microsecond = dt_microsecond d\<rparr>)"

text \<open>The wall clock of New York at a reading: the value of
  \<^verbatim>\<open>datetime.now(ZoneInfo('America/New_York'))\<close> and of
  \<^verbatim>\<open>utc_now.astimezone(ZoneInfo("America/New_York"))\<close>.\<close>

definition ny_now :: "clock_reading \<Rightarrow> datetime" where
  "ny_now clk = dt_add_seconds (utc_now clk) (ny_utcoffset clk)"

text \<open>Year, month and day of an ordinal, by the algorithm of the \<^verbatim>\<open>datetime\<close> module
  (400-year, 100-year and 4-year cycles, then an estimate of the month that is corrected
  downwards).\<close>

definition days_before_month :: "int list" where
  "days_before_month = [-1, 0, 31, 59, 90, 120, 151, 181, 212, 243, 273, 304, 334]"

definition days_in_month :: "int list" where
  "days_in_month = [-1, 31, 28, 31, 30, 31, 30, 31, 31, 30, 31, 30, 31]"

definition ord2ymd :: "int \<Rightarrow> int \<times> int \<times> int" where
  "ord2ymd ordinal =
     (let n = ordinal - 1;
          n400 = n div 146097; na = n mod 146097;
          n100 = na div 36524; nb = na mod 36524;
          n4 = nb div 1461; nc = nb mod 1461;
          n1 = nc div 365; nd = nc mod 365;
          year = n400 * 400 + 1 + n100 * 100 + n4 * 4 + n1
      in if n1 = 4 \<or> n100 = 4 then (year - 1, 12, 31)
         else
           (let leapyear = (n1 = 3 \<and> (n4 \<noteq> 24 \<or> n100 = 3));
                month = (nd + 50) div 32;
                preceding = days_before_month ! nat month
                              + (if month > 2 \<and> leapyear then 1 else 0)
            in if preceding > nd
               then (let month' = month - 1;
                         preceding' = preceding - (days_in_month ! nat month'
                                        + (if month' = 2 \<and> leapyear then 1 else 0))
                     in (year, month', nd - preceding' + 1))
               else (year, month, nd - preceding + 1)))"

text \<open>\<^verbatim>\<open>"%0wd" % n\<close> for a number of at most \<open>w\<close> digits.\<close>

fun zpad :: "nat \<Rightarrow> int \<Rightarrow> string" where
  "zpad 0 n = []"
| "zpad (Suc w) n = zpad w (n div 10) @ [''0123456789'' ! nat (n mod 10)]"

text \<open>\<^verbatim>\<open>datetime.isoformat()\<close> of a naive datetime: the microseconds are printed only
  when they are not zero.\<close>

definition isoformat :: "datetime \<Rightarrow> string" where
  "isoformat d =
     (case ord2ymd (dt_ordinal d) of (y, m, dd) \<Rightarrow>
        zpad 4 y @ ''-'' @ zpad 2 m @ ''-'' @ zpad 2 dd @ ''T'' @
        zpad 2 (dt_hour d) @ '':'' @ zpad 2 (dt_minute d) @ '':'' @ zpad 2 (dt_second d) @
        (if dt_microsecond d \<noteq> 0 then ''.'' @ zpad 6 (dt_microsecond d) else []))"

text \<open>The offset that \<^verbatim>\<open>isoformat\<close> appends for an aware datetime: sign, hours and
  minutes, and the seconds when there are any.\<close>

definition format_offset :: "int \<Rightarrow> string" where
  "format_offset off =
     (let a = \<bar>off\<bar>; hh = a div 3600; mm = (a mod 3600) div 60; ss = a mod 60 in
      (if off < 0 then ''-'' else ''+'') @ zpad 2 hh @ '':'' @ zpad 2 mm @
      (if ss \<noteq> 0 then '':'' @ zpad 2 ss else []))"

text \<open>Lines 95 to 97: \<^verbatim>\<open>est_now.isoformat()\<close>.\<close>

definition est_now_isoformat :: "clock_reading \<Rightarrow> string" where
  "est_now_isoformat clk = isoformat (ny_now clk) @ format_offset (ny_utcoffset clk)"

section \<open>The trade store\<close>

text \<open>
  A row of the table \<^verbatim>\<open>trades\<close> (lines 40 to 51), with the declared column types;
  a column that may be \<^verbatim>\<open>NULL\<close> is an option.  The store is the table in rowid order and
  the counter that \<^verbatim>\<open>AUTOINCREMENT\<close> keeps (the largest id handed out so far).
  \<^verbatim>\<open>init_trades_db\<close> creates the empty table.  The division of the price is on reals
  here; the rounding of Python's float division is not modelled.
\<close>

record trade_row =
  r_id :: int
  r_date :: string
  r_time :: string
  r_strike :: string
  r_side :: string
  r_price :: real
  r_position :: int
  r_status :: string
  r_closed_at :: "string option"
  r_contract :: "string option"

record store =
  table_rows :: "trade_row list"
  table_seq :: int

definition init_trades_db :: store where
  "init_trades_db = \<lparr>table_rows = [], table_seq = 0\<rparr>"

definition opt_text :: "string option \<Rightarrow> sql_value" where
  "opt_text x = (case x of None \<Rightarrow> Null | Some s \<Rightarrow> Text s)"

text \<open>The two column lists that the \<^verbatim>\<open>SELECT\<close> statements use, and the key lists that
  are zipped with them.\<close>

definition open_columns :: "trade_row \<Rightarrow> sql_value list" where
  "open_columns r =
     [Integer (r_id r), Text (r_date r), Text (r_time r), Text (r_strike r), Text (r_side r),
      Real (r_price r), Integer (r_position r), Text (r_status r), opt_text (r_contract r)]"

definition all_columns :: "trade_row \<Rightarrow> sql_value list" where
  "all_columns r =
     [Integer (r_id r), Text (r_date r), Text (r_time r), Text (r_strike r), Text (r_side r),
      Real (r_price r), Integer (r_position r), Text (r_status r), opt_text (r_closed_at r),
      opt_text (r_contract r)]"

definition open_keys :: "string list" where
  "open_keys = [''id'', ''date'', ''time'', ''strike'', ''side'', ''price'', ''position'',
                ''status'', ''contract'']"

definition all_keys :: "string list" where
  "all_keys = [''id'', ''date'', ''time'', ''strike'', ''side'', ''price'', ''position'',
               ''status'', ''closed_at'', ''contract'']"

text \<open>\<^verbatim>\<open>ORDER BY ... DESC\<close>: an insertion sort into descending order, given the
  comparison \<open>ge\<close> of the sort key.\<close>

fun insert_desc :: "('a \<Rightarrow> 'a \<Rightarrow> bool) \<Rightarrow> 'a \<Rightarrow> 'a list \<Rightarrow> 'a list" where
  "insert_desc ge x [] = [x]"
| "insert_desc ge x (y # ys) = (if ge x y then x # y # ys else y # insert_desc ge x ys)"

definition order_by_desc :: "('a \<Rightarrow> 'a \<Rightarrow> bool) \<Rightarrow> 'a list \<Rightarrow> 'a list" where
  "order_by_desc ge xs = foldr (insert_desc ge) xs []"

text \<open>Comparison of two \<^verbatim>\<open>TEXT\<close> values in SQLite: byte by byte, a proper prefix
  being smaller.\<close>

fun text_less :: "string \<Rightarrow> string \<Rightarrow> bool" where
  "text_less [] [] = False"
| "text_less [] (y # ys) = True"
| "text_less (x # xs) [] = False"
| "text_less (x # xs) (y # ys) =
     ((of_char x :: nat) < of_char y \<or> (x = y \<and> text_less xs ys))"

definition text_ge :: "string \<Rightarrow> string \<Rightarrow> bool" where
  "text_ge a b \<longleftrightarrow> \<not> text_less a b"

text \<open>Lines 62 to 68.  Without \<^verbatim>\<open>ORDER BY\<close> the scan is in rowid order.\<close>

definition fetch_open_trades :: "store \<Rightarrow> trade_dict list" where
  "fetch_open_trades st =
     map (\<lambda>r. zip open_keys (open_columns r))
       (filter (\<lambda>r. r_status r = ''open'') (table_rows st))"

text \<open>Lines 70 to 76.\<close>

definition fetch_all_trades :: "store \<Rightarrow> trade_dict list" where
  "fetch_all_trades st =
     map (\<lambda>r. zip all_keys (all_columns r))
       (order_by_desc (\<lambda>a b. r_id a \<ge> r_id b) (table_rows st))"

text \<open>The caller's dictionary at creation: the six required keys, and the two optional
  ones.\<close>

record new_trade =
  n_date :: string
  n_time :: string
  n_strike :: string
  n_side :: string
  n_price :: real
  n_position :: int
  n_status :: "string option"
  n_contract :: "string option"

text \<open>Lines 78 to 88: the new row gets the next id, the price divided by 100, the status
  of the caller or \<^verbatim>\<open>'open'\<close>, and no \<^verbatim>\<open>closed_at\<close>.\<close>

definition insert_trade :: "new_trade \<Rightarrow> store \<Rightarrow> int \<times> store" where
  "insert_trade trade st =
     (let last_id = table_seq st + 1 in
      (last_id,
       \<lparr>table_rows = table_rows st @
          [\<lparr>r_id = last_id, r_date = n_date trade, r_time = n_time trade,
            r_strike = n_strike trade, r_side = n_side trade, r_price = n_price trade / 100,
            r_position = n_position trade,
            r_status = (case n_status trade of None \<Rightarrow> ''open'' | Some s \<Rightarrow> s),
            r_closed_at = None, r_contract = n_contract trade\<rparr>],
        table_seq = last_id\<rparr>))"

text \<open>
  The column \<^verbatim>\<open>id\<close> is a 64-bit signed integer.  Binding a Python integer outside this
  range to a parameter of a statement raises \<^verbatim>\<open>OverflowError\<close> in \<^verbatim>\<open>cursor.execute\<close>,
  before the statement runs.
\<close>

definition sqlite_integer :: "int \<Rightarrow> bool" where
  "sqlite_integer i \<longleftrightarrow> - 9223372036854775808 \<le> i \<and> i \<le> 9223372036854775807"

text \<open>The two \<^verbatim>\<open>UPDATE\<close> statements of lines 98 and 100, once their parameters are bound:
  with a \<^verbatim>\<open>closed_at\<close> the statement of line 98, without one the statement of line 100.\<close>

definition execute_update :: "string \<Rightarrow> string option \<Rightarrow> int \<Rightarrow> store \<Rightarrow> store" where
  "execute_update status closed_at trade_id st =
     (case closed_at of
        Some t \<Rightarrow>
          st\<lparr>table_rows :=
               map (\<lambda>r. if r_id r = trade_id
                        then r\<lparr>r_status := status, r_closed_at := Some t\<rparr> else r)
                 (table_rows st)\<rparr>
      | None \<Rightarrow>
          st\<lparr>table_rows :=
               map (\<lambda>r. if r_id r = trade_id then r\<lparr>r_status := status\<rparr> else r)
                 (table_rows st)\<rparr>)"

text \<open>Lines 90 to 102.  The clock is read only when the status is \<^verbatim>\<open>'closed'\<close> and no
  \<^verbatim>\<open>closed_at\<close> was given.  When the binding of the id raises, nothing is written.\<close>

definition update_trade_status ::
  "clock_reading \<Rightarrow> int \<Rightarrow> string \<Rightarrow> string option \<Rightarrow> store \<Rightarrow> error + store" where
  "update_trade_status clk trade_id status closed_at st =
     (if status = ''closed''
      then (let closed_at' = (case closed_at of None \<Rightarrow> est_now_isoformat clk | Some t \<Rightarrow> t)
            in if sqlite_integer trade_id
               then Inr (execute_update status (Some closed_at') trade_id st)
               else Inl OverflowError)
      else if sqlite_integer trade_id
           then Inr (execute_update status None trade_id st)
           else Inl OverflowError)"

text \<open>The \<^verbatim>\<open>DELETE\<close> statement of line 107, once its parameter is bound.\<close>

definition execute_delete :: "int \<Rightarrow> store \<Rightarrow> store" where
  "execute_delete trade_id st =
     st\<lparr>table_rows := filter (\<lambda>r. r_id r \<noteq> trade_id) (table_rows st)\<rparr>"

text \<open>Lines 104 to 109.\<close>

definition delete_trade :: "int \<Rightarrow> store \<Rightarrow> error + store" where
  "delete_trade trade_id st =
     (if sqlite_integer trade_id then Inr (execute_delete trade_id st) else Inl OverflowError)"

text \<open>Lines 111 to 124.  The cutoff is the ISO text of the naive UTC time \<open>hours\<close> ago; a
  row with \<^verbatim>\<open>NULL\<close> in \<^verbatim>\<open>closed_at\<close> fails the comparison.\<close>

definition fetch_recent_closed_trades :: "clock_reading \<Rightarrow> int \<Rightarrow> store \<Rightarrow> trade_dict list" where
  "fetch_recent_closed_trades clk hours st =
     (let cutoff = dt_add_seconds (utc_now clk) (- (hours * 3600));
          cutoff_iso = isoformat cutoff
      in map (\<lambda>r. zip all_keys (all_columns r))
           (order_by_desc (\<lambda>a b. text_ge (the (r_closed_at a)) (the (r_closed_at b)))
              (filter (\<lambda>r. r_status r = ''closed'' \<and>
                            (case r_closed_at r of None \<Rightarrow> False | Some t \<Rightarrow> text_ge t cutoff_iso))
                 (table_rows st))))"

text \<open>Lines 128 to 136: the route \<^verbatim>\<open>GET /trades\<close>.  A \<^verbatim>\<open>recent_hours\<close> of zero is
  false.\<close>

definition get_trades ::
  "clock_reading \<Rightarrow> string option \<Rightarrow> int option \<Rightarrow> store \<Rightarrow> trade_dict list" where
  "get_trades clk status recent_hours st =
     (if status = Some ''open'' then fetch_open_trades st
      else if status = Some ''closed'' \<and> recent_hours \<noteq> None \<and> recent_hours \<noteq> Some 0
           then fetch_recent_closed_trades clk (the recent_hours) st
      else if status = Some ''closed''
           then filter (\<lambda>t. map_of t ''status'' = Some (Text ''closed'')) (fetch_all_trades st)
      else fetch_all_trades st)"


subsection \<open>Sequences of store operations\<close>

text \<open>The operations that the routes \<^verbatim>\<open>POST\<close>, \<^verbatim>\<open>PUT\<close> and \<^verbatim>\<open>DELETE\<close> and the
  monitor perform on the store, each with the clock reading at which it runs.\<close>

datatype store_op =
    Create new_trade
  | SetStatus int string "string option"
  | Delete int

text \<open>An operation that raises leaves the store as it was.\<close>

definition apply_op :: "clock_reading \<Rightarrow> store_op \<Rightarrow> store \<Rightarrow> store" where
  "apply_op clk op st =
     (case op of
        Create trade \<Rightarrow> snd (insert_trade trade st)
      | SetStatus trade_id status closed_at \<Rightarrow>
          (case update_trade_status clk trade_id status closed_at st of
             Inl e \<Rightarrow> st | Inr st' \<Rightarrow> st')
      | Delete trade_id \<Rightarrow>
          (case delete_trade trade_id st of Inl e \<Rightarrow> st | Inr st' \<Rightarrow> st'))"

fun run_ops :: "(clock_reading \<times> store_op) list \<Rightarrow> store \<Rightarrow> store" where
  "run_ops [] st = st"
| "run_ops ((clk, op) # ops) st = run_ops ops (apply_op clk op st)"

definition find_row :: "int \<Rightarrow> store \<Rightarrow> trade_row option" where
  "find_row trade_id st = find (\<lambda>r. r_id r = trade_id) (table_rows st)"

text \<open>Apart from the rows with the id \<open>trade_id\<close>, the store \<open>st'\<close> is the store \<open>st\<close>: the
  same other rows, the same ids in the same order, the same id counter.\<close>

definition same_except :: "int \<Rightarrow> store \<Rightarrow> store \<Rightarrow> bool" where
  "same_except trade_id st st' \<longleftrightarrow>
     filter (\<lambda>r. r_id r \<noteq> trade_id) (table_rows st') = filter (\<lambda>r. r_id r \<noteq> trade_id) (table_rows st) \<and>
     map r_id (table_rows st') = map r_id (table_rows st) \<and>
     table_seq st' = table_seq st"

text \<open>The invariant of the data model: \<^verbatim>\<open>closed_at\<close> is present exactly on closed
  trades.\<close>

definition closed_at_iff_closed :: "trade_row \<Rightarrow> bool" where
  "closed_at_iff_closed r \<longleftrightarrow> (r_closed_at r \<noteq> None) = (r_status r = ''closed'')"

text \<open>No trade that is closed in \<open>st\<close> is open in \<open>st'\<close>.\<close>

definition no_reopen :: "store \<Rightarrow> store \<Rightarrow> bool" where
  "no_reopen st st' \<longleftrightarrow>
     list_all (\<lambda>r. r_status r = ''closed'' \<longrightarrow>
                 (case find_row (r_id r) st' of None \<Rightarrow> True | Some r' \<Rightarrow> r_status r' \<noteq> ''open''))
       (table_rows st)"

text \<open>The operations that keep the invariant: no trade is created as closed, and a status
  other than \<^verbatim>\<open>'closed'\<close> is not written to a closed trade.\<close>

definition forward_op :: "store_op \<Rightarrow> store \<Rightarrow> bool" where
  "forward_op op st =
     (case op of
        Create trade \<Rightarrow> n_status trade \<noteq> Some ''closed''
      | SetStatus trade_id status closed_at \<Rightarrow>
          status = ''closed'' \<or>
          (case find_row trade_id st of None \<Rightarrow> True | Some r \<Rightarrow> r_status r \<noteq> ''closed'')
      | Delete trade_id \<Rightarrow> True)"

fun forward_ops :: "(clock_reading \<times> store_op) list \<Rightarrow> store \<Rightarrow> bool" where
  "forward_ops [] st = True"
| "forward_ops ((clk, op) # ops) st = (forward_op op st \<and> forward_ops ops (apply_op clk op st))"

text \<open>What every store that the operations build satisfies: the ids are distinct and at
  most the counter, and every row has \<^verbatim>\<open>closed_at\<close> exactly when it is closed.\<close>

definition store_inv :: "store \<Rightarrow> bool" where
  "store_inv st \<longleftrightarrow>
     distinct (map r_id (table_rows st)) \<and>
     list_all (\<lambda>r. r_id r \<le> table_seq st) (table_rows st) \<and>
     list_all closed_at_iff_closed (table_rows st)"

text \<open>The trade with this id is closed, or deleted.\<close>

definition closed_or_gone :: "int \<Rightarrow> store \<Rightarrow> bool" where
  "closed_or_gone i st \<longleftrightarrow>
     (case find_row i st of None \<Rightarrow> True | Some r \<Rightarrow> r_status r = ''closed'')"

section \<open>The label pattern in the words of the specification\<close>

text \<open>A label contains the pattern when it has a substring made of the letters BTC in any
  case, some white space, one or two digits, and \<^verbatim>\<open>am\<close> or \<^verbatim>\<open>pm\<close> in any case.\<close>

definition contains_pattern :: "string \<Rightarrow> bool" where
  "contains_pattern s \<longleftrightarrow>
     (\<exists>pre btc ws ds ap post.
        s = pre @ btc @ ws @ ds @ ap @ post \<and>
        lower btc = ''btc'' \<and>
        ws \<noteq> [] \<and> (\<forall>c \<in> set ws. is_space c) \<and>
        (length ds = 1 \<or> length ds = 2) \<and> (\<forall>c \<in> set ds. is_digit c) \<and>
        (lower ap = ''am'' \<or> lower ap = ''pm''))"

section \<open>The monitor\<close>

text \<open>Lines 163 to 166.\<close>

definition check_stop_trigger :: "trade_dict \<Rightarrow> bool" where
  "check_stop_trigger trade = False"

text \<open>
  What the monitor does besides writing to the store: the lines it prints and its sleeps.
  The three \<^verbatim>\<open>print\<close> calls of the loop are the three constructors of \<open>printed\<close>.
\<close>

datatype printed = ClosingStopTrigger int | AutoClosingExpired int | MonitorError error

datatype event = Print printed | Sleep nat

record world =
  db :: store
  events :: "event list"

text \<open>
  The environment of one pass.  \<open>clock n\<close> is the \<open>n\<close>-th reading of the system clock: the
  trade at position \<open>k\<close> of the pass takes reading \<open>2k\<close> for its expiration check and
  reading \<open>2k + 1\<close> for the time stamp of its closing.  \<open>db_fails\<close> tells which calls into
  the storage engine raise in this pass.
\<close>

datatype db_call = FetchOpenTrades | UpdateTradeStatus int

record pass_env =
  clock :: "nat \<Rightarrow> clock_reading"
  db_fails :: "db_call \<Rightarrow> bool"

text \<open>\<^verbatim>\<open>trade['id']\<close> on a dictionary of \<^verbatim>\<open>fetch_open_trades\<close>, whose id is the integer
  primary key.\<close>

definition lookup_id :: "trade_dict \<Rightarrow> error + int" where
  "lookup_id trade = (case map_of trade ''id'' of Some (Integer i) \<Rightarrow> Inr i | _ \<Rightarrow> Inl KeyError)"

text \<open>Lines 174 and 175, and 177 and 178: print, then close.  The result is the world as
  the statement left it, and the exception if one was raised.\<close>

definition close_trade ::
  "pass_env \<Rightarrow> clock_reading \<Rightarrow> (int \<Rightarrow> printed) \<Rightarrow> trade_dict \<Rightarrow> world \<Rightarrow> world \<times> error option" where
  "close_trade env clk message trade w =
     (case lookup_id trade of
        Inl e \<Rightarrow> (w, Some e)
      | Inr i \<Rightarrow>
          (let w' = w\<lparr>events := events w @ [Print (message i)]\<rparr> in
           if db_fails env (UpdateTradeStatus i) then (w', Some StorageError)
           else case update_trade_status clk i ''closed'' None (db w') of
                  Inl e \<Rightarrow> (w', Some e)
                | Inr st' \<Rightarrow> (w'\<lparr>db := st'\<rparr>, None)))"

text \<open>Lines 173 to 178: the body of the \<^verbatim>\<open>for\<close> loop for the trade at position \<open>k\<close>.\<close>

definition monitor_trade ::
  "pass_env \<Rightarrow> nat \<Rightarrow> trade_dict \<Rightarrow> world \<Rightarrow> world \<times> error option" where
  "monitor_trade env k trade w =
     (if check_stop_trigger trade
      then close_trade env (clock env (2 * k + 1)) ClosingStopTrigger trade w
      else case is_trade_expired (ny_now (clock env (2 * k))) trade of
             Inl e \<Rightarrow> (w, Some e)
           | Inr True \<Rightarrow> close_trade env (clock env (2 * k + 1)) AutoClosingExpired trade w
           | Inr False \<Rightarrow> (w, None))"

text \<open>Line 172: the \<^verbatim>\<open>for\<close> loop, which an exception leaves.\<close>

fun monitor_trades ::
  "pass_env \<Rightarrow> nat \<Rightarrow> trade_dict list \<Rightarrow> world \<Rightarrow> world \<times> error option" where
  "monitor_trades env k [] w = (w, None)"
| "monitor_trades env k (trade # trades) w =
     (case monitor_trade env k trade w of
        (w', Some e) \<Rightarrow> (w', Some e)
      | (w', None) \<Rightarrow> monitor_trades env (Suc k) trades w')"

text \<open>Lines 170 to 180: the \<^verbatim>\<open>try\<close> statement, whose handler prints the exception.\<close>

definition monitor_pass :: "pass_env \<Rightarrow> world \<Rightarrow> world" where
  "monitor_pass env w =
     (if db_fails env FetchOpenTrades
      then w\<lparr>events := events w @ [Print (MonitorError StorageError)]\<rparr>
      else case monitor_trades env 0 (fetch_open_trades (db w)) w of
             (w', None) \<Rightarrow> w'
           | (w', Some e) \<Rightarrow> w'\<lparr>events := events w' @ [Print (MonitorError e)]\<rparr>)"

text \<open>Lines 169 to 181: \<^verbatim>\<open>while True\<close>.  The loop has no exit; \<open>trade_monitor_loop n\<close> is
  the world after \<open>n\<close> more periods, the next period being number \<open>k\<close>.\<close>

fun trade_monitor_loop :: "nat \<Rightarrow> (nat \<Rightarrow> pass_env) \<Rightarrow> nat \<Rightarrow> world \<Rightarrow> world" where
  "trade_monitor_loop 0 envs k w = w"
| "trade_monitor_loop (Suc n) envs k w =
     trade_monitor_loop n envs (Suc k)
       (let w' = monitor_pass (envs k) w in w'\<lparr>events := events w' @ [Sleep 5]\<rparr>)"

subsection \<open>Starting the monitor\<close>

text \<open>
  The threads of the process are numbered in the order of their creation.  The state holds
  the global \<^verbatim>\<open>_monitor_thread\<close>, the threads for which \<^verbatim>\<open>is_alive()\<close> holds, the threads
  whose \<^verbatim>\<open>start()\<close> has been called, and the number of threads created so far.  Every
  thread here is created with the target \<^verbatim>\<open>trade_monitor_loop\<close>, so the threads that are
  alive are the running monitors.
\<close>

record process =
  monitor_thread :: "nat option"
  alive :: "nat set"
  started :: "nat set"
  created :: nat

definition initial_process :: process where
  "initial_process = \<lparr>monitor_thread = None, alive = {}, started = {}, created = 0\<rparr>"

text \<open>Line 187: the test.\<close>

definition monitor_needed :: "process \<Rightarrow> bool" where
  "monitor_needed p \<longleftrightarrow> monitor_thread p = None \<or> the (monitor_thread p) \<notin> alive p"

text \<open>Line 188: a new thread object is created and assigned to the global.  It is not alive
  before it is started.\<close>

definition create_thread :: "process \<Rightarrow> process" where
  "create_thread p = p\<lparr>monitor_thread := Some (created p), created := Suc (created p)\<rparr>"

text \<open>Line 189: \<^verbatim>\<open>start()\<close> is called on the thread that the global names at that moment;
  it raises \<^verbatim>\<open>RuntimeError\<close> on a thread that has been started before.\<close>

definition start_thread :: "process \<Rightarrow> error + process" where
  "start_thread p =
     (let t = the (monitor_thread p) in
      if t \<in> started p then Inl RuntimeError
      else Inr (p\<lparr>alive := insert t (alive p), started := insert t (started p)\<rparr>))"

text \<open>Lines 185 to 189, run by one caller from the test to the start.\<close>

definition start_trade_monitor :: "process \<Rightarrow> error + process" where
  "start_trade_monitor p =
     (if monitor_needed p then start_thread (create_thread p) else Inr p)"

text \<open>
  The function holds no lock, so the calls of several callers can interleave line by line.
  A caller is a number; the state holds the callers that have passed the test and stand
  before line 188, and those that stand before line 189.  The events are the three lines, each
  for a caller, and the end of a thread; an event of a caller who does not stand at that line
  changes nothing.
\<close>

record calls =
  proc :: process
  at_188 :: "nat set"
  at_189 :: "nat set"

datatype call_event = Line187 nat | Line188 nat | Line189 nat | ThreadEnds nat

definition call_step :: "call_event \<Rightarrow> calls \<Rightarrow> calls" where
  "call_step ev s =
     (case ev of
        Line187 c \<Rightarrow>
          (if c \<in> at_188 s \<or> c \<in> at_189 s then s
           else if monitor_needed (proc s) then s\<lparr>at_188 := insert c (at_188 s)\<rparr>
           else s)
      | Line188 c \<Rightarrow>
          (if c \<in> at_188 s
           then s\<lparr>proc := create_thread (proc s),
                  at_188 := at_188 s - {c}, at_189 := insert c (at_189 s)\<rparr>
           else s)
      | Line189 c \<Rightarrow>
          (if c \<in> at_189 s
           then s\<lparr>proc := (case start_thread (proc s) of Inl e \<Rightarrow> proc s | Inr p \<Rightarrow> p),
                  at_189 := at_189 s - {c}\<rparr>
           else s)
      | ThreadEnds t \<Rightarrow> s\<lparr>proc := (proc s)\<lparr>alive := alive (proc s) - {t}\<rparr>\<rparr>)"

definition run_calls :: "call_event list \<Rightarrow> calls" where
  "run_calls evs =
     foldl (\<lambda>s ev. call_step ev s) \<lparr>proc = initial_process, at_188 = {}, at_189 = {}\<rparr> evs"

text \<open>Calls that do not overlap: each call of \<^verbatim>\<open>start_trade_monitor\<close> runs from the
  test to the start before the next event.  If line 189 raises, the state is the one that
  line 188 left.\<close>

datatype process_event = StartMonitor | ThreadDies nat

definition process_step :: "process_event \<Rightarrow> process \<Rightarrow> process" where
  "process_step ev p =
     (case ev of
        StartMonitor \<Rightarrow> (case start_trade_monitor p of Inl e \<Rightarrow> create_thread p | Inr p' \<Rightarrow> p')
      | ThreadDies t \<Rightarrow> p\<lparr>alive := alive p - {t}\<rparr>)"

definition run_process :: "process_event list \<Rightarrow> process" where
  "run_process evs = foldl (\<lambda>p ev. process_step ev p) initial_process evs"

section \<open>Scenarios\<close>

text \<open>
  The inputs of the theorems below that run the code: 1 June 2025 (ordinal 739403) at 18:05
  UTC, which is 14:05 in New York under daylight saving time; a trade on the contract
  \<^verbatim>\<open>"BTC 2pm"\<close> and one on the contract \<^verbatim>\<open>"BTC 13pm"\<close>; an environment in which the
  clock stands still and the storage engine never fails.
\<close>

definition scenario_clock :: clock_reading where
  "scenario_clock =
     \<lparr>utc_now = \<lparr>dt_ordinal = 739403, dt_hour = 18, dt_minute = 5, dt_second = 0,
                  dt_microsecond = 0\<rparr>,
      ny_utcoffset = - 14400\<rparr>"

definition trade_2pm :: new_trade where
  "trade_2pm =
     \<lparr>n_date = ''2025-06-01'', n_time = ''09:30'', n_strike = ''105000'', n_side = ''Y'',
      n_price = 5500, n_position = 1, n_status = None, n_contract = Some ''BTC 2pm''\<rparr>"

definition trade_13pm :: new_trade where
  "trade_13pm = trade_2pm\<lparr>n_contract := Some ''BTC 13pm''\<rparr>"

definition scenario_env :: pass_env where
  "scenario_env = \<lparr>clock = (\<lambda>n. scenario_clock), db_fails = (\<lambda>c. False)\<rparr>"

text \<open>The store after one trade has been created and one pass of the monitor has run.\<close>

definition store_after_pass :: store where
  "store_after_pass =
     db (monitor_pass scenario_env
           \<lparr>db = snd (insert_trade trade_2pm init_trades_db), events = []\<rparr>)"

text \<open>The store with the trade on \<^verbatim>\<open>"BTC 13pm"\<close> (id 1) and the trade on
  \<^verbatim>\<open>"BTC 2pm"\<close> (id 2).\<close>

definition store_two_trades :: store where
  "store_two_trades =
     snd (insert_trade trade_2pm (snd (insert_trade trade_13pm init_trades_db)))"

text \<open>A trade is created and closed; then it is set back to \<^verbatim>\<open>'open'\<close>.\<close>

definition ops_close :: "(clock_reading \<times> store_op) list" where
  "ops_close = [(scenario_clock, Create trade_2pm),
                (scenario_clock, SetStatus 1 ''closed'' None)]"

definition ops_reopen :: "(clock_reading \<times> store_op) list" where
  "ops_reopen = ops_close @ [(scenario_clock, SetStatus 1 ''open'' None)]"

text \<open>A trade is created with the status \<^verbatim>\<open>'closed'\<close>.\<close>

definition ops_create_closed :: "(clock_reading \<times> store_op) list" where
  "ops_create_closed = [(scenario_clock, Create (trade_2pm\<lparr>n_status := Some ''closed''\<rparr>))]"

text \<open>Two trades on \<^verbatim>\<open>"BTC 2pm"\<close> (ids 1 and 2), and an environment in which the
  storage engine fails on the closing of trade 1.\<close>

definition store_two_due :: store where
  "store_two_due = snd (insert_trade trade_2pm (snd (insert_trade trade_2pm init_trades_db)))"

definition failing_env :: pass_env where
  "failing_env = \<lparr>clock = (\<lambda>n. scenario_clock), db_fails = (\<lambda>c. c = UpdateTradeStatus 1)\<rparr>"

text \<open>1 January 2026 (ordinal 739617) at 03:30:15.004500 UTC, which is 22:30:15.004500 of
  31 December 2025 in New York under standard time.\<close>

definition winter_clock :: clock_reading where
  "winter_clock =
     \<lparr>utc_now = \<lparr>dt_ordinal = 739617, dt_hour = 3, dt_minute = 30, dt_second = 15,
                  dt_microsecond = 4500\<rparr>,
      ny_utcoffset = - 18000\<rparr>"

text \<open>Three trades: id 1 on \<^verbatim>\<open>"BTC 2pm"\<close>, id 2 on \<^verbatim>\<open>"BTC 13pm"\<close>, id 3 on
  \<^verbatim>\<open>"BTC 2pm"\<close>.\<close>

definition store_three_trades :: store where
  "store_three_trades =
     snd (insert_trade trade_2pm
       (snd (insert_trade trade_13pm (snd (insert_trade trade_2pm init_trades_db)))))"

section \<open>Properties of datetimes\<close>

text \<open>On well-formed datetimes the comparison field by field agrees with the sign of the
  difference, so that \<open>dt_sub now expiration\<close> is the gap by which \<open>expiration\<close> is earlier.\<close>

lemma dt_less_iff_sub_pos:
  assumes "valid_datetime a" and "valid_datetime b"
  shows "dt_less a b \<longleftrightarrow> 0 < dt_sub b a"
  using assms unfolding valid_datetime_def dt_less_def dt_sub_def
  by auto

lemma valid_replace_hour:
  assumes "valid_datetime now" and "replace_hour now h = Inr expiration"
  shows "valid_datetime expiration"
  using assms by (auto simp: valid_datetime_def replace_hour_def split: if_splits)

section \<open>Properties of the pattern matcher\<close>

lemma digit_not_space: "is_digit c \<Longrightarrow> \<not> is_space c"
  by (auto simp: is_digit_def is_space_def Let_def)

lemma match_ampm_ok:
  "lower ap = ''am'' \<or> lower ap = ''pm'' \<Longrightarrow> match_ampm (ap @ post) = Some ap"
  by (cases ap; cases "tl ap"; cases "tl (tl ap)") (auto simp: lower_def)

lemma match_ampm_digit: "match_ampm (d # r) = Some ap \<Longrightarrow> \<not> is_digit d"
  by (cases r) (auto simp: is_digit_def lower_char_def Let_def split: if_splits)

lemma match_hour_ok:
  assumes "length ds = 1 \<or> length ds = 2" "\<forall>c \<in> set ds. is_digit c"
    "lower ap = ''am'' \<or> lower ap = ''pm''"
  shows "match_hour_ampm (ds @ ap @ post) = Some (ds, ap)"
proof -
  have m: "match_ampm (ap @ post) = Some ap" using assms(3) by (rule match_ampm_ok)
  from assms(1) show ?thesis
  proof
    assume "length ds = 1"
    then obtain d where ds: "ds = [d]" by (cases ds) auto
    have nd: "\<And>x r. ap @ post = x # r \<Longrightarrow> \<not> is_digit x"
      using m match_ampm_digit by metis
    show ?thesis using assms(2) m nd unfolding ds
      by (cases "ap @ post") (auto)
  next
    assume "length ds = 2"
    then obtain d e where ds: "ds = [d, e]"
      by (cases ds; cases "tl ds") auto
    show ?thesis using assms(2) m unfolding ds by simp
  qed
qed

lemma match_spaces_ok:
  assumes "ws \<noteq> []" "\<forall>c \<in> set ws. is_space c" "length ds = 1 \<or> length ds = 2"
    "\<forall>c \<in> set ds. is_digit c" "lower ap = ''am'' \<or> lower ap = ''pm''"
  shows "match_spaces_hour_ampm (ws @ ds @ ap @ post) = Some (ds, ap)"
proof -
  obtain d ds' where ds: "ds = d # ds'" using assms(3) by (cases ds) auto
  then have "\<not> is_space d" using assms(4) digit_not_space by auto
  then have t: "takeWhile is_space (ws @ ds @ ap @ post) = ws"
    and d: "dropWhile is_space (ws @ ds @ ap @ post) = ds @ ap @ post"
    using assms(2) ds by (simp_all add: takeWhile_append2 dropWhile_append2)
  show ?thesis unfolding match_spaces_hour_ampm_def t d
    using assms(1) match_hour_ok[OF assms(3,4,5)] by simp
qed

lemma match_here_ok:
  assumes "lower btc = ''btc''" "ws \<noteq> []" "\<forall>c \<in> set ws. is_space c" "length ds = 1 \<or> length ds = 2"
    "\<forall>c \<in> set ds. is_digit c" "lower ap = ''am'' \<or> lower ap = ''pm''"
  shows "match_here (btc @ ws @ ds @ ap @ post) = Some (ds, ap)"
proof -
  obtain b t c where btc: "btc = [b, t, c]"
    and l: "lower_char b = CHR ''b''" "lower_char t = CHR ''t''" "lower_char c = CHR ''c''"
    using assms(1) by (cases btc; cases "tl btc"; cases "tl (tl btc)"; cases "tl (tl (tl btc))") (auto simp: lower_def)
  show ?thesis unfolding btc using l match_spaces_ok[OF assms(2-6)] by simp
qed

lemma re_search_append: "match_here s \<noteq> None \<Longrightarrow> re_search (pre @ s) \<noteq> None"
proof (induction pre)
  case Nil
  then show ?case by (cases s) auto
next
  case (Cons a pre)
  then show ?case by (auto split: option.splits)
qed

lemma contains_pattern_search:
  assumes "contains_pattern s"
  shows "re_search s \<noteq> None"
proof -
  from assms obtain pre btc ws ds ap post where s: "s = pre @ btc @ ws @ ds @ ap @ post"
    and a: "lower btc = ''btc''" "ws \<noteq> []" "\<forall>c \<in> set ws. is_space c"
      "length ds = 1 \<or> length ds = 2" "\<forall>c \<in> set ds. is_digit c"
      "lower ap = ''am'' \<or> lower ap = ''pm''"
    unfolding contains_pattern_def by blast
  have "match_here (btc @ ws @ ds @ ap @ post) = Some (ds, ap)"
    using a by (rule match_here_ok)
  then have "re_search (pre @ btc @ ws @ ds @ ap @ post) \<noteq> None"
    by (intro re_search_append) simp
  then show ?thesis using s by simp
qed

lemma match_ampm_sound:
  "match_ampm s = Some ap \<Longrightarrow> (\<exists>post. s = ap @ post) \<and> (lower ap = ''am'' \<or> lower ap = ''pm'')"
  by (cases s; cases "tl s") (auto simp: lower_def split: if_splits)

lemma match_hour_sound:
  assumes "match_hour_ampm s = Some (ds, ap)"
  shows "(\<exists>post. s = ds @ ap @ post) \<and> (length ds = 1 \<or> length ds = 2) \<and>
         (\<forall>c \<in> set ds. is_digit c) \<and> (lower ap = ''am'' \<or> lower ap = ''pm'')"
  using assms
  by (cases s) (auto split: if_splits option.splits list.splits dest!: match_ampm_sound)

lemma match_spaces_sound:
  assumes "match_spaces_hour_ampm s = Some (ds, ap)"
  shows "\<exists>ws post. s = ws @ ds @ ap @ post \<and> ws \<noteq> [] \<and> (\<forall>c \<in> set ws. is_space c) \<and>
         (length ds = 1 \<or> length ds = 2) \<and>
         (\<forall>c \<in> set ds. is_digit c) \<and> (lower ap = ''am'' \<or> lower ap = ''pm'')"
proof -
  from assms have ne: "takeWhile is_space s \<noteq> []"
    and m: "match_hour_ampm (dropWhile is_space s) = Some (ds, ap)"
    by (auto simp: match_spaces_hour_ampm_def split: if_splits)
  from match_hour_sound[OF m] obtain post where
    d: "dropWhile is_space s = ds @ ap @ post" and
    r: "length ds = 1 \<or> length ds = 2" "\<forall>c \<in> set ds. is_digit c" "lower ap = ''am'' \<or> lower ap = ''pm''"
    by blast
  have "s = takeWhile is_space s @ ds @ ap @ post"
    using takeWhile_dropWhile_id[of is_space s] d by simp
  moreover have "\<forall>c \<in> set (takeWhile is_space s). is_space c"
    by (auto dest: set_takeWhileD)
  ultimately show ?thesis using ne r by blast
qed

lemma match_here_sound:
  assumes "match_here s = Some (ds, ap)"
  shows "\<exists>btc ws post. s = btc @ ws @ ds @ ap @ post \<and> lower btc = ''btc'' \<and>
         ws \<noteq> [] \<and> (\<forall>c \<in> set ws. is_space c) \<and>
         (length ds = 1 \<or> length ds = 2) \<and>
         (\<forall>c \<in> set ds. is_digit c) \<and> (lower ap = ''am'' \<or> lower ap = ''pm'')"
proof -
  from assms obtain b t c rest where s: "s = b # t # c # rest"
    by (cases s rule: match_here.cases) auto
  with assms have l: "lower [b, t, c] = ''btc''" and m: "match_spaces_hour_ampm rest = Some (ds, ap)"
    by (auto simp: lower_def split: if_splits)
  from match_spaces_sound[OF m] obtain ws post where
    "rest = ws @ ds @ ap @ post" "ws \<noteq> []" "\<forall>c \<in> set ws. is_space c"
    "length ds = 1 \<or> length ds = 2" "\<forall>c \<in> set ds. is_digit c" "lower ap = ''am'' \<or> lower ap = ''pm''"
    by blast
  then show ?thesis using s l
    by (intro exI[of _ "[b, t, c]"] exI[of _ ws] exI[of _ post]) simp
qed

lemma re_search_sound:
  "re_search s = Some (ds, ap) \<Longrightarrow>
     \<exists>pre btc ws post. s = pre @ btc @ ws @ ds @ ap @ post \<and> lower btc = ''btc'' \<and>
         ws \<noteq> [] \<and> (\<forall>c \<in> set ws. is_space c) \<and>
         (length ds = 1 \<or> length ds = 2) \<and>
         (\<forall>c \<in> set ds. is_digit c) \<and> (lower ap = ''am'' \<or> lower ap = ''pm'')"
proof (induction s)
  case Nil
  then show ?case by simp
next
  case (Cons a s)
  show ?case
  proof (cases "match_here (a # s)")
    case None
    with Cons.prems have "re_search s = Some (ds, ap)" by simp
    from Cons.IH[OF this] obtain pre btc ws post where
      "s = pre @ btc @ ws @ ds @ ap @ post \<and> lower btc = ''btc'' \<and>
         ws \<noteq> [] \<and> (\<forall>c \<in> set ws. is_space c) \<and>
         (length ds = 1 \<or> length ds = 2) \<and>
         (\<forall>c \<in> set ds. is_digit c) \<and> (lower ap = ''am'' \<or> lower ap = ''pm'')" by blast
    then show ?thesis
      by (intro exI[of _ "a # pre"] exI[of _ btc] exI[of _ ws] exI[of _ post]) simp
  next
    case (Some g)
    with Cons.prems have "match_here (a # s) = Some (ds, ap)" by simp
    from match_here_sound[OF this] show ?thesis
      by (metis append_Nil)
  qed
qed

lemma contains_pattern_iff: "contains_pattern s \<longleftrightarrow> re_search s \<noteq> None"
proof
  assume "contains_pattern s" then show "re_search s \<noteq> None" by (rule contains_pattern_search)
next
  assume "re_search s \<noteq> None"
  then obtain ds ap where "re_search s = Some (ds, ap)" by auto
  from re_search_sound[OF this] show "contains_pattern s"
    unfolding contains_pattern_def by blast
qed

lemma hour_range:
  assumes "length ds = 1 \<or> length ds = 2" "\<forall>c \<in> set ds. is_digit c"
  shows "0 \<le> int_of_digits ds \<and> int_of_digits ds \<le> 99"
proof -
  have dv: "\<And>c. is_digit c \<Longrightarrow> 0 \<le> digit_value c \<and> digit_value c \<le> 9"
    by (auto simp: is_digit_def digit_value_def Let_def)
  from assms(1) show ?thesis
  proof
    assume "length ds = 1"
    then obtain d where "ds = [d]" by (cases ds) auto
    then show ?thesis using dv[of d] assms(2) by (simp add: int_of_digits_def)
  next
    assume "length ds = 2"
    then obtain d e where "ds = [d, e]" by (cases ds; cases "tl ds") auto
    then show ?thesis using dv[of d] dv[of e] assms(2) by (simp add: int_of_digits_def)
  qed
qed

section \<open>Properties of the expiration rule\<close>

text \<open>
  C5.  A trade whose contract label is absent, \<^verbatim>\<open>None\<close>, empty, or without a substring of
  the form BTC, white space, one or two digits, am or pm (in any case) is never expired,
  whatever the time; in particular the labels \<^verbatim>\<open>""\<close>, \<^verbatim>\<open>"ETH 9am"\<close> and
  \<^verbatim>\<open>"BTC morning"\<close>.
\<close>

theorem non_matching_label_never_expires:
  "(map_of trade ''contract'' = None \<or> map_of trade ''contract'' = Some Null \<or>
    (\<exists>label. map_of trade ''contract'' = Some (Text label) \<and> \<not> contains_pattern label)
      \<longrightarrow> is_trade_expired now trade = Inr False) \<and>
   is_trade_expired now [] = Inr False \<and>
   is_trade_expired now [(''contract'', Null)] = Inr False \<and>
   is_trade_expired now [(''contract'', Text [])] = Inr False \<and>
   is_trade_expired now [(''contract'', Text ''ETH 9am'')] = Inr False \<and>
   is_trade_expired now [(''contract'', Text ''BTC morning'')] = Inr False"
proof (intro conjI impI)
  assume "map_of trade ''contract'' = None \<or> map_of trade ''contract'' = Some Null \<or>
    (\<exists>label. map_of trade ''contract'' = Some (Text label) \<and> \<not> contains_pattern label)"
  then show "is_trade_expired now trade = Inr False"
    by (auto simp: is_trade_expired_def contains_pattern_iff split: option.splits)
next
  show "is_trade_expired now [] = Inr False"
    by (simp add: is_trade_expired_def)
  show "is_trade_expired now [(''contract'', Null)] = Inr False"
    by (simp add: is_trade_expired_def)
  show "is_trade_expired now [(''contract'', Text [])] = Inr False"
    by (simp add: is_trade_expired_def)
  show "is_trade_expired now [(''contract'', Text ''ETH 9am'')] = Inr False"
    by code_simp
  show "is_trade_expired now [(''contract'', Text ''BTC morning'')] = Inr False"
    by code_simp
qed

theorem non_matching_label_never_expires_witness:
  "\<not> contains_pattern ''BTC 9 am'' \<and>
   is_trade_expired
     \<lparr>dt_ordinal = 739403, dt_hour = 23, dt_minute = 0, dt_second = 0, dt_microsecond = 0\<rparr>
     [(''id'', Integer 7), (''contract'', Text ''BTC 9 am'')] = Inr False"
proof -
  have "re_search ''BTC 9 am'' = None"
    by code_simp
  then have h: "\<not> contains_pattern ''BTC 9 am''"
    by (simp add: contains_pattern_iff)
  have m: "map_of [(''id'', Integer 7), (''contract'', Text ''BTC 9 am'')] ''contract''
             = Some (Text ''BTC 9 am'')"
    by simp
  from h m non_matching_label_never_expires
    [of "[(''id'', Integer 7), (''contract'', Text ''BTC 9 am'')]"
        "\<lparr>dt_ordinal = 739403, dt_hour = 23, dt_minute = 0, dt_second = 0, dt_microsecond = 0\<rparr>"]
  show ?thesis by blast
qed

text \<open>
  C4.  The label \<^verbatim>\<open>"BTC 13pm"\<close> matches the pattern and gives the hour 25, the label
  \<^verbatim>\<open>"BTC 99am"\<close> the hour 99; on both, at every time, \<^verbatim>\<open>is_trade_expired\<close> raises
  \<^verbatim>\<open>ValueError\<close> instead of returning a boolean.
\<close>

theorem is_trade_expired_raises_on_hour_out_of_range:
  "is_trade_expired now [(''contract'', Text ''BTC 13pm'')] = Inl ValueError \<and>
   is_trade_expired now [(''contract'', Text ''BTC 99am'')] = Inl ValueError"
  by code_simp



section \<open>Properties of the status update and of deletion\<close>

lemma find_row_None_iff:
  "find_row i st = None \<longleftrightarrow> (\<forall>r \<in> set (table_rows st). r_id r \<noteq> i)"
  by (auto simp: find_row_def find_None_iff)

lemma find_row_SomeD:
  "find_row i st = Some r \<Longrightarrow> r \<in> set (table_rows st) \<and> r_id r = i"
  by (auto simp: find_row_def find_Some_iff)

text \<open>An update of the rows with one id that keeps the id.\<close>

lemma find_map_same_id:
  assumes "\<And>r. r_id (g r) = r_id r"
  shows "find (\<lambda>r. r_id r = i) (map (\<lambda>r. if r_id r = j then g r else r) rs)
         = map_option (\<lambda>r. if r_id r = j then g r else r) (find (\<lambda>r. r_id r = i) rs)"
  using assms by (induction rs) auto

lemma filter_map_other_ids:
  "filter (\<lambda>r. r_id r \<noteq> j) (map (\<lambda>r. if r_id r = j then g r else r) rs)
   = filter (\<lambda>r. r_id r \<noteq> j) rs"
  if "\<And>r. r_id (g r) = r_id r"
  using that by (induction rs) auto

lemma map_id_map_same_id:
  "map r_id (map (\<lambda>r. if r_id r = j then g r else r) rs) = map r_id rs"
  if "\<And>r. r_id (g r) = r_id r"
  using that by (induction rs) auto

lemma find_row_execute_update:
  "find_row i (execute_update status closed_at j st) =
     map_option
       (\<lambda>r. if r_id r = j
            then r\<lparr>r_status := status,
                   r_closed_at := (case closed_at of Some t \<Rightarrow> Some t | None \<Rightarrow> r_closed_at r)\<rparr>
            else r)
       (find_row i st)"
proof (cases closed_at)
  case None
  show ?thesis
    unfolding None
    by (simp cong: if_cong add: find_row_def execute_update_def
          find_map_same_id[where g = "\<lambda>r. r\<lparr>r_status := s\<rparr>" for s])
next
  case (Some t)
  show ?thesis
    unfolding Some
    by (simp cong: if_cong add: find_row_def execute_update_def
          find_map_same_id[where g = "\<lambda>r. r\<lparr>r_status := s, r_closed_at := c\<rparr>" for s c])
qed

lemma ids_execute_update:
  "map r_id (table_rows (execute_update status closed_at j st)) = map r_id (table_rows st)"
  by (cases closed_at)
     (simp_all add: execute_update_def
        map_id_map_same_id[where g = "\<lambda>r. r\<lparr>r_status := s, r_closed_at := c\<rparr>" for s c]
        map_id_map_same_id[where g = "\<lambda>r. r\<lparr>r_status := s\<rparr>" for s])

lemma others_execute_update:
  "filter (\<lambda>r. r_id r \<noteq> j) (table_rows (execute_update status closed_at j st))
   = filter (\<lambda>r. r_id r \<noteq> j) (table_rows st)"
  by (cases closed_at)
     (simp_all add: execute_update_def
        filter_map_other_ids[where g = "\<lambda>r. r\<lparr>r_status := s, r_closed_at := c\<rparr>" for s c]
        filter_map_other_ids[where g = "\<lambda>r. r\<lparr>r_status := s\<rparr>" for s])

lemma seq_execute_update:
  "table_seq (execute_update status closed_at j st) = table_seq st"
  by (cases closed_at) (simp_all add: execute_update_def)

lemma same_except_execute_update: "same_except j st (execute_update status closed_at j st)"
  by (simp add: same_except_def others_execute_update ids_execute_update seq_execute_update)

lemma update_trade_status_eq:
  "update_trade_status clk j status closed_at st =
     (if sqlite_integer j
      then Inr (execute_update status
                  (if status = ''closed''
                   then Some (case closed_at of None \<Rightarrow> est_now_isoformat clk | Some t \<Rightarrow> t)
                   else None) j st)
      else Inl OverflowError)"
  by (simp add: update_trade_status_def Let_def)

text \<open>Printing a number and reading the digits gives the number back.\<close>

lemma length_zpad: "length (zpad w n) = w"
  by (induction w arbitrary: n) simp_all

lemma digit_value_nth:
  assumes "0 \<le> m" and "m < 10"
  shows "digit_value (''0123456789'' ! nat m) = m"
proof -
  from assms have "m = 0 \<or> m = 1 \<or> m = 2 \<or> m = 3 \<or> m = 4 \<or> m = 5 \<or> m = 6 \<or> m = 7 \<or> m = 8 \<or> m = 9"
    by arith
  then show ?thesis
    by (elim disjE) (simp_all add: digit_value_def)
qed

lemma int_of_digits_snoc: "int_of_digits (s @ [c]) = int_of_digits s * 10 + digit_value c"
  by (simp add: int_of_digits_def)

lemma int_of_digits_zpad:
  assumes "0 \<le> n" and "n < 10 ^ w"
  shows "int_of_digits (zpad w n) = n"
  using assms
proof (induction w arbitrary: n)
  case 0
  then show ?case by (simp add: int_of_digits_def)
next
  case (Suc w)
  from Suc.prems have "0 \<le> n div 10" and "n div 10 < 10 ^ w"
    by (simp_all add: div_less_iff_less_mult pos_imp_zdiv_nonneg_iff mult.commute)
  then have "int_of_digits (zpad w (n div 10)) = n div 10"
    by (rule Suc.IH)
  moreover have "digit_value (''0123456789'' ! nat (n mod 10)) = n mod 10"
    by (rule digit_value_nth) simp_all
  ultimately show ?case
    by (simp add: int_of_digits_snoc)
qed

text \<open>The wall clock of New York is the UTC reading moved by the offset of the zone.\<close>

lemma split_seconds:
  "(t div 86400) * 86400 + (t mod 60 + ((t mod 3600) div 60) * 60 + ((t mod 86400) div 3600) * 3600) = t"
  for t :: int
proof -
  have a: "t mod 86400 mod 3600 = t mod 3600"
    by (simp add: mod_mod_cancel)
  have b: "t mod 3600 mod 60 = t mod 60"
    by (simp add: mod_mod_cancel)
  have c: "((t mod 86400) div 3600) * 3600 + t mod 86400 mod 3600 = t mod 86400"
    by (rule div_mult_mod_eq)
  have d: "((t mod 3600) div 60) * 60 + t mod 3600 mod 60 = t mod 3600"
    by (rule div_mult_mod_eq)
  have e: "(t div 86400) * 86400 + t mod 86400 = t"
    by (rule div_mult_mod_eq)
  from a b c d e show ?thesis by linarith
qed

lemma seconds_bounds:
  "0 \<le> (t mod 86400) div 3600 \<and> (t mod 86400) div 3600 < 24 \<and>
   0 \<le> (t mod 3600) div 60 \<and> (t mod 3600) div 60 < 60 \<and>
   0 \<le> t mod 60 \<and> t mod 60 < 60"
  for t :: int
proof -
  have h: "0 \<le> x div 3600 \<and> x div 3600 < 24" if "0 \<le> x" "x < 86400" for x :: int
    using that by arith
  have m: "0 \<le> x div 60 \<and> x div 60 < 60" if "0 \<le> x" "x < 3600" for x :: int
    using that by arith
  have "0 \<le> t mod 86400" "t mod 86400 < 86400" "0 \<le> t mod 3600" "t mod 3600 < 3600"
    by simp_all
  with h[of "t mod 86400"] m[of "t mod 3600"] show ?thesis
    by simp
qed

lemma dt_sub_add_seconds: "dt_sub (dt_add_seconds d s) d = s * 1000000"
proof -
  define t where "t = dt_hour d * 3600 + dt_minute d * 60 + dt_second d + s"
  define sm where "sm = t mod 60 + ((t mod 3600) div 60) * 60 + ((t mod 86400) div 3600) * 3600"
  have f: "dt_add_seconds d s =
      \<lparr>dt_ordinal = dt_ordinal d + t div 86400, dt_hour = (t mod 86400) div 3600,
       dt_minute = (t mod 3600) div 60, dt_second = t mod 60,
       dt_microsecond = dt_microsecond d\<rparr>"
    by (simp add: dt_add_seconds_def Let_def t_def)
  have "(t div 86400) * 86400 + sm = t"
    unfolding sm_def by (rule split_seconds)
  then have "(t div 86400) * 86400 + (sm - (dt_second d + dt_minute d * 60 + dt_hour d * 3600)) = s"
    unfolding t_def by linarith
  then show ?thesis
    unfolding f dt_sub_def by (simp add: sm_def)
qed

lemma ny_now_offset: "dt_sub (ny_now clk) (utc_now clk) = ny_utcoffset clk * 1000000"
  by (simp add: ny_now_def dt_sub_add_seconds)

lemma valid_ny_now:
  assumes "valid_datetime (utc_now clk)"
  shows "valid_datetime (ny_now clk)"
  using assms seconds_bounds[of "dt_hour (utc_now clk) * 3600 + dt_minute (utc_now clk) * 60
                      + dt_second (utc_now clk) + ny_utcoffset clk"]
  by (simp add: valid_datetime_def ny_now_def dt_add_seconds_def Let_def)

text \<open>
  C6.  On an existing id (an id in the store is a rowid, a 64-bit integer), \<open>set_status\<close>
  to \<^verbatim>\<open>'closed'\<close> without a \<^verbatim>\<open>closed_at\<close> writes the status and the stamp; with a \<^verbatim>\<open>closed_at\<close> it writes the status and the given text; with
  another status it writes the status only.  The other fields of the row, the rows with other
  ids, the order of the rows and the id counter stay as they were.  The stamp is the ISO 8601
  text of the New York wall clock \<open>ny\<close> at the reading of the clock: date, \<open>T\<close>, time,
  microseconds if any, and the offset of the zone.  \<open>ny\<close> is the UTC reading moved by the
  offset of the zone; read back at their places in the text, the digits give the hour, minute
  and second of \<open>ny\<close>; the offsets of New York print as \<^verbatim>\<open>-05:00\<close> and \<^verbatim>\<open>-04:00\<close>.
\<close>

theorem set_status_frame:
  fixes clk :: clock_reading
  defines "ny \<equiv> ny_now clk"
  defines "stamp \<equiv>
    (case ord2ymd (dt_ordinal ny) of (y, m, d) \<Rightarrow>
       zpad 4 y @ ''-'' @ zpad 2 m @ ''-'' @ zpad 2 d @ ''T'' @
       zpad 2 (dt_hour ny) @ '':'' @ zpad 2 (dt_minute ny) @ '':'' @ zpad 2 (dt_second ny) @
       (if dt_microsecond ny \<noteq> 0 then ''.'' @ zpad 6 (dt_microsecond ny) else []) @
       format_offset (ny_utcoffset clk))"
  assumes "find_row trade_id st = Some r" and "sqlite_integer trade_id"
  shows "(\<exists>st'. update_trade_status clk trade_id ''closed'' None st = Inr st' \<and>
            find_row trade_id st' = Some (r\<lparr>r_status := ''closed'', r_closed_at := Some stamp\<rparr>) \<and>
            same_except trade_id st st') \<and>
         (\<exists>st'. update_trade_status clk trade_id ''closed'' (Some t) st = Inr st' \<and>
            find_row trade_id st' = Some (r\<lparr>r_status := ''closed'', r_closed_at := Some t\<rparr>) \<and>
            same_except trade_id st st') \<and>
         (status \<noteq> ''closed'' \<longrightarrow>
            (\<exists>st'. update_trade_status clk trade_id status closed_at st = Inr st' \<and>
               find_row trade_id st' = Some (r\<lparr>r_status := status\<rparr>) \<and>
               same_except trade_id st st')) \<and>
         dt_sub ny (utc_now clk) = ny_utcoffset clk * 1000000 \<and>
         (valid_datetime (utc_now clk) \<longrightarrow>
            valid_datetime ny \<and> stamp ! 10 = CHR ''T'' \<and>
            int_of_digits (take 2 (drop 11 stamp)) = dt_hour ny \<and>
            int_of_digits (take 2 (drop 14 stamp)) = dt_minute ny \<and>
            int_of_digits (take 2 (drop 17 stamp)) = dt_second ny) \<and>
         format_offset (- 18000) = ''-05:00'' \<and> format_offset (- 14400) = ''-04:00''"
proof -
  from assms(3) have i: "r_id r = trade_id" by (simp add: find_row_SomeD)
  have s: "est_now_isoformat clk = stamp"
    by (simp add: est_now_isoformat_def isoformat_def stamp_def ny_def split: prod.splits)
  have c1: "\<exists>st'. update_trade_status clk trade_id ''closed'' None st = Inr st' \<and>
            find_row trade_id st' = Some (r\<lparr>r_status := ''closed'', r_closed_at := Some stamp\<rparr>) \<and>
            same_except trade_id st st'"
    using assms(3,4) i
    by (simp add: update_trade_status_eq find_row_execute_update same_except_execute_update s)
  have c2: "\<exists>st'. update_trade_status clk trade_id ''closed'' (Some t) st = Inr st' \<and>
            find_row trade_id st' = Some (r\<lparr>r_status := ''closed'', r_closed_at := Some t\<rparr>) \<and>
            same_except trade_id st st'"
    using assms(3,4) i
    by (simp add: update_trade_status_eq find_row_execute_update same_except_execute_update)
  have c3: "\<exists>st'. update_trade_status clk trade_id status closed_at st = Inr st' \<and>
               find_row trade_id st' = Some (r\<lparr>r_status := status\<rparr>) \<and>
               same_except trade_id st st'"
    if "status \<noteq> ''closed''"
    using assms(3,4) i that
    by (simp add: update_trade_status_eq find_row_execute_update same_except_execute_update)
  have o: "dt_sub ny (utc_now clk) = ny_utcoffset clk * 1000000"
    unfolding ny_def by (rule ny_now_offset)
  have v: "valid_datetime ny \<and> stamp ! 10 = CHR ''T'' \<and>
            int_of_digits (take 2 (drop 11 stamp)) = dt_hour ny \<and>
            int_of_digits (take 2 (drop 14 stamp)) = dt_minute ny \<and>
            int_of_digits (take 2 (drop 17 stamp)) = dt_second ny"
    if u: "valid_datetime (utc_now clk)"
  proof -
    from u have vn: "valid_datetime ny"
      unfolding ny_def by (rule valid_ny_now)
    obtain y m d where ymd: "ord2ymd (dt_ordinal ny) = (y, m, d)"
      by (cases "ord2ymd (dt_ordinal ny)")
    define rest where "rest = (if dt_microsecond ny \<noteq> 0 then ''.'' @ zpad 6 (dt_microsecond ny) else [])
                                @ format_offset (ny_utcoffset clk)"
    have st: "stamp = zpad 4 y @ ''-'' @ zpad 2 m @ ''-'' @ zpad 2 d @ ''T'' @
                zpad 2 (dt_hour ny) @ '':'' @ zpad 2 (dt_minute ny) @ '':'' @
                zpad 2 (dt_second ny) @ rest"
      by (simp add: stamp_def ymd rest_def)
    have t: "stamp ! 10 = CHR ''T''"
      unfolding st by (simp add: nth_append length_zpad)
    have h: "take 2 (drop 11 stamp) = zpad 2 (dt_hour ny)"
      unfolding st by (simp add: length_zpad)
    have mi: "take 2 (drop 14 stamp) = zpad 2 (dt_minute ny)"
      unfolding st by (simp add: length_zpad)
    have se: "take 2 (drop 17 stamp) = zpad 2 (dt_second ny)"
      unfolding st by (simp add: length_zpad)
    from vn have "int_of_digits (zpad 2 (dt_hour ny)) = dt_hour ny"
      "int_of_digits (zpad 2 (dt_minute ny)) = dt_minute ny"
      "int_of_digits (zpad 2 (dt_second ny)) = dt_second ny"
      by (simp_all add: valid_datetime_def int_of_digits_zpad)
    with vn t h mi se show ?thesis by simp
  qed
  have f: "format_offset (- 18000) = ''-05:00'' \<and> format_offset (- 14400) = ''-04:00''"
    by code_simp
  from c1 c2 c3 o v f show ?thesis by blast
qed

theorem set_status_frame_witness:
  "find_row 2 store_two_trades \<noteq> None \<and> sqlite_integer 2 \<and>
   (case update_trade_status scenario_clock 2 ''closed'' None store_two_trades of
      Inl e \<Rightarrow> None
    | Inr st' \<Rightarrow> map_option (\<lambda>r. (r_status r, r_closed_at r)) (find_row 2 st'))
     = Some (''closed'', Some ''2025-06-01T14:05:00-04:00'') \<and>
   (case update_trade_status winter_clock 2 ''closed'' None store_two_trades of
      Inl e \<Rightarrow> None
    | Inr st' \<Rightarrow> map_option (\<lambda>r. (r_status r, r_closed_at r)) (find_row 2 st'))
     = Some (''closed'', Some ''2025-12-31T22:30:15.004500-05:00'') \<and>
   (case update_trade_status winter_clock 2 ''closed'' None store_two_trades of
      Inl e \<Rightarrow> None
    | Inr st' \<Rightarrow> map_option (\<lambda>r. (r_status r, r_closed_at r)) (find_row 1 st'))
     = Some (''open'', None)"
proof -
  obtain r where r: "find_row 2 store_two_trades = Some r"
    by (simp add: store_two_trades_def insert_trade_def init_trades_db_def find_row_def)
  have k: "sqlite_integer 2"
    by (simp add: sqlite_integer_def)
  have s1: "(case ord2ymd (dt_ordinal (ny_now scenario_clock)) of (y, m, d) \<Rightarrow>
       zpad 4 y @ ''-'' @ zpad 2 m @ ''-'' @ zpad 2 d @ ''T'' @
       zpad 2 (dt_hour (ny_now scenario_clock)) @ '':'' @ zpad 2 (dt_minute (ny_now scenario_clock))
       @ '':'' @ zpad 2 (dt_second (ny_now scenario_clock)) @
       (if dt_microsecond (ny_now scenario_clock) \<noteq> 0
        then ''.'' @ zpad 6 (dt_microsecond (ny_now scenario_clock)) else []) @
       format_offset (ny_utcoffset scenario_clock)) = ''2025-06-01T14:05:00-04:00''"
    by code_simp
  have s2: "(case ord2ymd (dt_ordinal (ny_now winter_clock)) of (y, m, d) \<Rightarrow>
       zpad 4 y @ ''-'' @ zpad 2 m @ ''-'' @ zpad 2 d @ ''T'' @
       zpad 2 (dt_hour (ny_now winter_clock)) @ '':'' @ zpad 2 (dt_minute (ny_now winter_clock))
       @ '':'' @ zpad 2 (dt_second (ny_now winter_clock)) @
       (if dt_microsecond (ny_now winter_clock) \<noteq> 0
        then ''.'' @ zpad 6 (dt_microsecond (ny_now winter_clock)) else []) @
       format_offset (ny_utcoffset winter_clock)) = ''2025-12-31T22:30:15.004500-05:00''"
    by code_simp
  have one: "find_row 1 store_two_trades \<noteq> None \<and>
             map_option (\<lambda>r. (r_status r, r_closed_at r)) (find_row 1 store_two_trades)
               = Some (''open'', None)"
    by (simp add: store_two_trades_def insert_trade_def init_trades_db_def find_row_def
          trade_13pm_def trade_2pm_def)
  from set_status_frame[OF r k, of scenario_clock] obtain st1 where
    u1: "update_trade_status scenario_clock 2 ''closed'' None store_two_trades = Inr st1"
    and f1: "find_row 2 st1 = Some (r\<lparr>r_status := ''closed'',
               r_closed_at := Some ''2025-06-01T14:05:00-04:00''\<rparr>)"
    unfolding s1 by blast
  from set_status_frame[OF r k, of winter_clock] obtain st2 where
    u2: "update_trade_status winter_clock 2 ''closed'' None store_two_trades = Inr st2"
    and f2: "find_row 2 st2 = Some (r\<lparr>r_status := ''closed'',
               r_closed_at := Some ''2025-12-31T22:30:15.004500-05:00''\<rparr>)"
    and e2: "same_except 2 store_two_trades st2"
    unfolding s2 by blast
  from e2 have "find (\<lambda>x. r_id x = 1) (filter (\<lambda>x. r_id x \<noteq> 2) (table_rows st2))
              = find (\<lambda>x. r_id x = 1) (filter (\<lambda>x. r_id x \<noteq> 2) (table_rows store_two_trades))"
    by (simp add: same_except_def)
  moreover have "find (\<lambda>x. r_id x = 1) (filter (\<lambda>x. r_id x \<noteq> 2) rs) = find (\<lambda>x. r_id x = 1) rs"
    for rs :: "trade_row list"
    by (induction rs) auto
  ultimately have o2: "find_row 1 st2 = find_row 1 store_two_trades"
    by (simp add: find_row_def)
  from r k u1 f1 u2 f2 o2 one show ?thesis by simp
qed

text \<open>
  C8, as the code has it.  The id \<open>2\<^sup>6\<^sup>3\<close> is in no store, and on it \<open>set_status\<close> and
  \<open>delete\<close> raise \<^verbatim>\<open>OverflowError\<close>.
\<close>

theorem missing_id_out_of_range_counterexample:
  "find_row 9223372036854775808 store_two_trades = None \<and>
   update_trade_status scenario_clock 9223372036854775808 ''closed'' None store_two_trades
     = Inl OverflowError \<and>
   update_trade_status scenario_clock 9223372036854775808 ''open'' None store_two_trades
     = Inl OverflowError \<and>
   delete_trade 9223372036854775808 store_two_trades = Inl OverflowError"
  by code_simp

text \<open>
  C8, amended.  For every id in the range of a 64-bit signed integer that is not in the store,
  \<open>set_status\<close> and \<open>delete\<close> return without an error and with the store as it was; a
  \<open>delete\<close> of such an id, on any store, succeeds, after it the id is not in the store, and
  a second \<open>delete\<close> succeeds and changes nothing.
\<close>

theorem missing_id_is_noop:
  assumes "find_row trade_id st = None" and "sqlite_integer trade_id"
  shows "update_trade_status clk trade_id status closed_at st = Inr st \<and>
         delete_trade trade_id st = Inr st \<and>
         (\<exists>other'. delete_trade trade_id other = Inr other' \<and>
            find_row trade_id other' = None \<and>
            delete_trade trade_id other' = Inr other')"
proof -
  from assms(1) have n: "\<forall>r \<in> set (table_rows st). r_id r \<noteq> trade_id"
    by (simp add: find_row_None_iff)
  then have m: "\<And>g. map (\<lambda>r. if r_id r = trade_id then g r else r) (table_rows st) = table_rows st"
    by (simp add: map_idI)
  from n have f: "filter (\<lambda>r. r_id r \<noteq> trade_id) (table_rows st) = table_rows st"
    by simp
  have "execute_update s c trade_id st = st" for s c
    by (cases c) (simp_all add: execute_update_def m)
  then have u: "update_trade_status clk trade_id status closed_at st = Inr st"
    using assms(2) by (simp add: update_trade_status_eq)
  have d: "delete_trade trade_id st = Inr st"
    using assms(2) by (simp add: delete_trade_def execute_delete_def f)
  have dd: "delete_trade trade_id other = Inr (execute_delete trade_id other)"
    using assms(2) by (simp add: delete_trade_def)
  have g: "find_row trade_id (execute_delete trade_id other) = None"
    by (simp add: find_row_None_iff execute_delete_def)
  have ddd: "delete_trade trade_id (execute_delete trade_id other)
               = Inr (execute_delete trade_id other)"
    using assms(2) by (simp add: delete_trade_def execute_delete_def)
  from u d dd g ddd show ?thesis by simp
qed

theorem missing_id_is_noop_witness:
  "find_row 3 store_two_trades = None \<and> sqlite_integer 3 \<and>
   update_trade_status scenario_clock 3 ''closed'' None store_two_trades = Inr store_two_trades \<and>
   delete_trade 3 store_two_trades = Inr store_two_trades"
proof -
  have h: "find_row 3 store_two_trades = None"
    by (simp add: store_two_trades_def insert_trade_def init_trades_db_def find_row_def)
  have k: "sqlite_integer 3"
    by (simp add: sqlite_integer_def)
  from missing_id_is_noop[OF h k, of scenario_clock "''closed''" None] h k
  show ?thesis
    by simp
qed

section \<open>Properties of the listings\<close>

lemma set_insert_desc: "set (insert_desc ge x ys) = insert x (set ys)"
  by (induction ys) auto

lemma set_order_by_desc: "set (order_by_desc ge xs) = set xs"
  by (induction xs) (simp_all add: order_by_desc_def set_insert_desc)

lemma open_dict_keys:
  "map fst (zip open_keys (open_columns r)) =
     [''id'', ''date'', ''time'', ''strike'', ''side'', ''price'', ''position'', ''status'',
      ''contract'']"
  by (simp add: open_keys_def open_columns_def)

lemma open_dict_closed_at: "map_of (zip open_keys (open_columns r)) ''closed_at'' = None"
  by (simp add: open_keys_def open_columns_def)

lemma all_dict_keys:
  "map fst (zip all_keys (all_columns r)) =
     [''id'', ''date'', ''time'', ''strike'', ''side'', ''price'', ''position'', ''status'',
      ''closed_at'', ''contract'']"
  by (simp add: all_keys_def all_columns_def)

lemma all_dict_closed_at:
  "map_of (zip all_keys (all_columns r)) ''closed_at'' = Some (opt_text (r_closed_at r))"
  by (simp add: all_keys_def all_columns_def)

lemma fetch_all_trades_rows:
  "d \<in> set (fetch_all_trades st) \<Longrightarrow>
     \<exists>r \<in> set (table_rows st). d = zip all_keys (all_columns r)"
  by (auto simp: fetch_all_trades_def set_order_by_desc)

lemma fetch_recent_closed_trades_rows:
  "d \<in> set (fetch_recent_closed_trades clk hours st) \<Longrightarrow>
     \<exists>r \<in> set (table_rows st). d = zip all_keys (all_columns r)"
  by (auto simp: fetch_recent_closed_trades_def Let_def set_order_by_desc)

lemma get_trades_closed_rows:
  assumes "d \<in> set (get_trades clk (Some ''closed'') recent_hours st)"
  shows "\<exists>r \<in> set (table_rows st). d = zip all_keys (all_columns r)"
proof (cases "recent_hours \<noteq> None \<and> recent_hours \<noteq> Some 0")
  case True
  with assms have "d \<in> set (fetch_recent_closed_trades clk (the recent_hours) st)"
    by (simp add: get_trades_def)
  then show ?thesis by (rule fetch_recent_closed_trades_rows)
next
  case False
  with assms have "d \<in> set (fetch_all_trades st)"
    by (auto simp: get_trades_def split: if_splits)
  then show ?thesis by (rule fetch_all_trades_rows)
qed

text \<open>
  C10.  Every dictionary of \<open>list(open)\<close> has exactly the nine keys id, date, time, strike,
  side, price, position, status, contract and no \<^verbatim>\<open>closed_at\<close>, whatever the row holds;
  every dictionary of \<open>list(all)\<close> and of \<open>list(closed)\<close> has the ten keys with
  \<^verbatim>\<open>closed_at\<close>, whose value is that of a row.
\<close>

theorem open_trades_omit_closed_at:
  "(\<forall>d \<in> set (get_trades clk (Some ''open'') recent_hours st).
      d \<in> set (fetch_open_trades st) \<and>
      map fst d = [''id'', ''date'', ''time'', ''strike'', ''side'', ''price'', ''position'',
                   ''status'', ''contract''] \<and>
      map_of d ''closed_at'' = None) \<and>
   (\<forall>d \<in> set (fetch_all_trades st) \<union> set (get_trades clk (Some ''closed'') recent_hours st).
      map fst d = [''id'', ''date'', ''time'', ''strike'', ''side'', ''price'', ''position'',
                   ''status'', ''closed_at'', ''contract''] \<and>
      (\<exists>r \<in> set (table_rows st). map_of d ''closed_at'' = Some (opt_text (r_closed_at r))))"
proof (intro conjI ballI)
  fix d assume "d \<in> set (get_trades clk (Some ''open'') recent_hours st)"
  then have o: "d \<in> set (fetch_open_trades st)"
    by (simp add: get_trades_def)
  then obtain r where d: "d = zip open_keys (open_columns r)"
    by (auto simp: fetch_open_trades_def)
  show "d \<in> set (fetch_open_trades st)" by (rule o)
  show "map fst d = [''id'', ''date'', ''time'', ''strike'', ''side'', ''price'', ''position'',
                   ''status'', ''contract'']"
    unfolding d by (rule open_dict_keys)
  show "map_of d ''closed_at'' = None"
    unfolding d by (rule open_dict_closed_at)
next
  fix d
  assume "d \<in> set (fetch_all_trades st) \<union> set (get_trades clk (Some ''closed'') recent_hours st)"
  then obtain r where r: "r \<in> set (table_rows st)" and d: "d = zip all_keys (all_columns r)"
    using fetch_all_trades_rows get_trades_closed_rows by blast
  show "map fst d = [''id'', ''date'', ''time'', ''strike'', ''side'', ''price'', ''position'',
                   ''status'', ''closed_at'', ''contract'']"
    unfolding d by (rule all_dict_keys)
  show "\<exists>r \<in> set (table_rows st). map_of d ''closed_at'' = Some (opt_text (r_closed_at r))"
    using r unfolding d by (auto simp: all_dict_closed_at)
qed

theorem open_trades_omit_closed_at_witness:
  "map r_closed_at (table_rows (run_ops ops_reopen init_trades_db))
     = [Some ''2025-06-01T14:05:00-04:00''] \<and>
   length (get_trades scenario_clock (Some ''open'') None (run_ops ops_reopen init_trades_db)) = 1 \<and>
   map_of (hd (get_trades scenario_clock (Some ''open'') None (run_ops ops_reopen init_trades_db)))
     ''closed_at'' = None \<and>
   length (fetch_all_trades (run_ops ops_reopen init_trades_db)) = 1 \<and>
   map fst (hd (fetch_all_trades (run_ops ops_reopen init_trades_db)))
     = [''id'', ''date'', ''time'', ''strike'', ''side'', ''price'', ''position'',
        ''status'', ''closed_at'', ''contract'']"
proof -
  let ?st = "run_ops ops_reopen init_trades_db"
  have c: "map r_closed_at (table_rows ?st) = [Some ''2025-06-01T14:05:00-04:00'']"
    by code_simp
  have l: "length (get_trades scenario_clock (Some ''open'') None ?st) = 1"
    by code_simp
  have a: "length (fetch_all_trades ?st) = 1"
    by code_simp
  from l have "hd (get_trades scenario_clock (Some ''open'') None ?st)
                 \<in> set (get_trades scenario_clock (Some ''open'') None ?st)"
    by (cases "get_trades scenario_clock (Some ''open'') None ?st") auto
  moreover from a have "hd (fetch_all_trades ?st) \<in> set (fetch_all_trades ?st)"
    by (cases "fetch_all_trades ?st") auto
  ultimately show ?thesis
    using open_trades_omit_closed_at[of scenario_clock None ?st] c l a by blast
qed

text \<open>
  C7.  A trade on \<^verbatim>\<open>"BTC 2pm"\<close> is created and closed by a pass of the monitor at 14:05
  New York time (18:05 UTC).  Its \<^verbatim>\<open>closed_at\<close> is the New York wall-clock text, the cutoff
  of \<open>closed-within(1 hour)\<close> at the same instant is the UTC wall-clock text of 17:05, and the
  text comparison leaves the trade out of the list, both through
  \<^verbatim>\<open>fetch_recent_closed_trades\<close> and through the route.
\<close>

theorem closed_just_now_is_not_recent:
  "map r_status (table_rows store_after_pass) = [''closed''] \<and>
   map r_closed_at (table_rows store_after_pass) = [Some ''2025-06-01T14:05:00-04:00''] \<and>
   isoformat (dt_add_seconds (utc_now scenario_clock) (- (1 * 3600))) = ''2025-06-01T17:05:00'' \<and>
   fetch_recent_closed_trades scenario_clock 1 store_after_pass = [] \<and>
   get_trades scenario_clock (Some ''closed'') (Some 1) store_after_pass = []"
  by code_simp

section \<open>The invariant of the store under sequences of operations\<close>

lemma find_id_append:
  "find (\<lambda>r. r_id r = i) (xs @ ys) =
     (case find (\<lambda>r. r_id r = i) xs of Some r \<Rightarrow> Some r | None \<Rightarrow> find (\<lambda>r. r_id r = i) ys)"
  for xs ys :: "trade_row list"
  by (induction xs) auto

lemma find_row_insert_trade_old:
  assumes "i \<le> table_seq st"
  shows "find_row i (snd (insert_trade trade st)) = find_row i st"
  using assms
  by (simp add: find_row_def insert_trade_def Let_def find_id_append split: option.splits)

lemma find_id_filter:
  "find (\<lambda>r. r_id r = i) (filter (\<lambda>r. r_id r \<noteq> j) rs) =
     (if i = j then None else find (\<lambda>r. r_id r = i) rs)"
  for rs :: "trade_row list"
  by (induction rs) auto

lemma find_row_execute_delete:
  "find_row i (execute_delete j st) = (if i = j then None else find_row i st)"
  by (simp add: find_row_def execute_delete_def find_id_filter)

lemma find_row_distinct:
  assumes "distinct (map r_id (table_rows st))" and "r \<in> set (table_rows st)"
  shows "find_row (r_id r) st = Some r"
proof -
  have "distinct (map r_id rs) \<Longrightarrow> r \<in> set rs \<Longrightarrow> find (\<lambda>x. r_id x = r_id r) rs = Some r"
    for rs :: "trade_row list"
    by (induction rs) force+
  with assms show ?thesis
    by (simp add: find_row_def)
qed

lemma store_inv_init: "store_inv init_trades_db"
  by (simp add: store_inv_def init_trades_db_def)

lemma store_inv_insert_trade:
  assumes "store_inv st" and "n_status trade \<noteq> Some ''closed''"
  shows "store_inv (snd (insert_trade trade st))"
proof -
  from assms(1) have d: "distinct (map r_id (table_rows st))"
    and b: "\<forall>r \<in> set (table_rows st). r_id r \<le> table_seq st"
    and c: "\<forall>r \<in> set (table_rows st). closed_at_iff_closed r"
    by (simp_all add: store_inv_def list_all_iff)
  from b have fresh: "table_seq st + 1 \<notin> r_id ` set (table_rows st)"
    by force
  from b have b': "\<forall>r \<in> set (table_rows st). r_id r \<le> table_seq st + 1"
    by force
  from assms(2) have new: "(case n_status trade of None \<Rightarrow> ''open'' | Some s \<Rightarrow> s) \<noteq> ''closed''"
    by (cases "n_status trade") auto
  show ?thesis
    using d fresh b' c new
    by (simp add: store_inv_def list_all_iff insert_trade_def Let_def closed_at_iff_closed_def)
qed

lemma store_inv_execute_delete:
  assumes "store_inv st"
  shows "store_inv (execute_delete j st)"
  using assms
  by (simp add: store_inv_def list_all_iff execute_delete_def distinct_map_filter)

lemma store_inv_execute_update:
  assumes "store_inv st"
    and "(status = ''closed'' \<and> closed_at \<noteq> None) \<or>
         (status \<noteq> ''closed'' \<and> closed_at = None \<and>
          (case find_row j st of None \<Rightarrow> True | Some r \<Rightarrow> r_status r \<noteq> ''closed''))"
  shows "store_inv (execute_update status closed_at j st)"
proof -
  let ?st' = "execute_update status closed_at j st"
  from assms(1) have d: "distinct (map r_id (table_rows st))"
    and b: "\<forall>r \<in> set (table_rows st). r_id r \<le> table_seq st"
    and c: "\<forall>r \<in> set (table_rows st). closed_at_iff_closed r"
    by (simp_all add: store_inv_def list_all_iff)
  have d': "distinct (map r_id (table_rows ?st'))"
    using d by (simp add: ids_execute_update)
  have b': "\<forall>r \<in> set (table_rows ?st'). r_id r \<le> table_seq ?st'"
  proof
    fix r assume "r \<in> set (table_rows ?st')"
    then have "r_id r \<in> set (map r_id (table_rows ?st'))" by simp
    then have "r_id r \<in> set (map r_id (table_rows st))" by (simp only: ids_execute_update)
    with b show "r_id r \<le> table_seq ?st'" by (auto simp: seq_execute_update)
  qed
  have c': "\<forall>r \<in> set (table_rows ?st'). closed_at_iff_closed r"
  proof (cases "status = ''closed''")
    case True
    with assms(2) obtain t where "closed_at = Some t" by auto
    with True show ?thesis
      using c by (auto simp: execute_update_def closed_at_iff_closed_def)
  next
    case False
    with assms(2) have n: "closed_at = None" by simp
    show ?thesis
    proof
      fix r' assume "r' \<in> set (table_rows ?st')"
      with n obtain r where r: "r \<in> set (table_rows st)"
        and r': "r' = (if r_id r = j then r\<lparr>r_status := status\<rparr> else r)"
        by (auto simp: execute_update_def)
      show "closed_at_iff_closed r'"
      proof (cases "r_id r = j")
        case True
        with d r have "find_row j st = Some r" by (auto dest: find_row_distinct)
        with assms(2) False have "r_status r \<noteq> ''closed''" by simp
        with c r have "r_closed_at r = None" by (auto simp: closed_at_iff_closed_def)
        with True r' False show ?thesis by (simp add: closed_at_iff_closed_def)
      next
        case False
        with r' c r show ?thesis by simp
      qed
    qed
  qed
  from d' b' c' show ?thesis
    by (simp add: store_inv_def list_all_iff)
qed

lemma apply_op_SetStatus:
  "apply_op clk (SetStatus j status closed_at) st =
     (if sqlite_integer j
      then execute_update status
             (if status = ''closed''
              then Some (case closed_at of None \<Rightarrow> est_now_isoformat clk | Some t \<Rightarrow> t)
              else None) j st
      else st)"
  by (simp add: apply_op_def update_trade_status_eq)

lemma apply_op_Delete:
  "apply_op clk (Delete j) st = (if sqlite_integer j then execute_delete j st else st)"
  by (simp add: apply_op_def delete_trade_def)

lemma store_inv_apply_op:
  assumes "store_inv st" and "forward_op op st"
  shows "store_inv (apply_op clk op st)"
proof (cases op)
  case (Create trade)
  with assms show ?thesis
    by (simp add: apply_op_def forward_op_def store_inv_insert_trade)
next
  case (SetStatus j status closed_at)
  with assms show ?thesis
    by (auto simp: apply_op_SetStatus forward_op_def intro!: store_inv_execute_update)
next
  case (Delete j)
  with assms show ?thesis
    by (simp add: apply_op_Delete store_inv_execute_delete)
qed

lemma seq_apply_op: "table_seq st \<le> table_seq (apply_op clk op st)"
  by (cases op)
     (simp_all add: apply_op_SetStatus apply_op_Delete seq_execute_update execute_delete_def,
      simp add: apply_op_def insert_trade_def Let_def)

lemma closed_or_gone_apply_op:
  assumes "forward_op op st" and "i \<le> table_seq st" and "closed_or_gone i st"
  shows "closed_or_gone i (apply_op clk op st)"
proof (cases op)
  case (Create trade)
  with assms(2,3) show ?thesis
    by (simp add: apply_op_def closed_or_gone_def find_row_insert_trade_old)
next
  case (SetStatus j status closed_at)
  show ?thesis
  proof (cases "find_row i st")
    case None
    then show ?thesis
      using assms(3)
      by (simp add: SetStatus apply_op_SetStatus closed_or_gone_def find_row_execute_update)
  next
    case (Some r)
    with assms(3) have cl: "r_status r = ''closed''" by (simp add: closed_or_gone_def)
    from Some have ri: "r_id r = i" by (simp add: find_row_SomeD)
    from assms(1) Some cl ri have "r_id r = j \<longrightarrow> status = ''closed''"
      by (auto simp: SetStatus forward_op_def)
    with Some cl assms(3) show ?thesis
      by (auto simp: SetStatus apply_op_SetStatus closed_or_gone_def find_row_execute_update)
  qed
next
  case (Delete j)
  with assms(3) show ?thesis
    by (simp add: apply_op_Delete closed_or_gone_def find_row_execute_delete)
qed

lemma run_ops_append: "run_ops (ops1 @ ops2) st = run_ops ops2 (run_ops ops1 st)"
  by (induction ops1 arbitrary: st) auto

lemma forward_ops_append:
  "forward_ops (ops1 @ ops2) st \<longleftrightarrow> forward_ops ops1 st \<and> forward_ops ops2 (run_ops ops1 st)"
  by (induction ops1 arbitrary: st) auto

lemma forward_ops_preserve:
  assumes "store_inv st" and "forward_ops ops st"
  shows "store_inv (run_ops ops st) \<and>
         (i \<le> table_seq st \<and> closed_or_gone i st \<longrightarrow> closed_or_gone i (run_ops ops st))"
  using assms
proof (induction ops arbitrary: st)
  case Nil
  then show ?case by simp
next
  case (Cons a ops)
  obtain clk op where a: "a = (clk, op)" by (cases a)
  from Cons.prems a have f: "forward_op op st" and fs: "forward_ops ops (apply_op clk op st)"
    by simp_all
  from Cons.prems(1) f have inv: "store_inv (apply_op clk op st)"
    by (rule store_inv_apply_op)
  from Cons.IH[OF inv fs]
  have IH: "store_inv (run_ops ops (apply_op clk op st))"
    "i \<le> table_seq (apply_op clk op st) \<and> closed_or_gone i (apply_op clk op st)
       \<longrightarrow> closed_or_gone i (run_ops ops (apply_op clk op st))"
    by simp_all
  have "i \<le> table_seq st \<and> closed_or_gone i st \<longrightarrow>
          i \<le> table_seq (apply_op clk op st) \<and> closed_or_gone i (apply_op clk op st)"
    using f closed_or_gone_apply_op[of op st i clk] seq_apply_op[of st clk op] by auto
  with IH show ?case by (simp add: a)
qed

text \<open>
  C2, as the code has it.  The sequence \<open>create, set_status(closed), set_status(open)\<close>
  ends with an open trade that has a \<^verbatim>\<open>closed_at\<close> and was closed before; a trade created
  with the status \<^verbatim>\<open>'closed'\<close> is closed without a \<^verbatim>\<open>closed_at\<close>.
\<close>

theorem closed_at_invariant_counterexample:
  "\<not> list_all closed_at_iff_closed (table_rows (run_ops ops_reopen init_trades_db)) \<and>
   \<not> no_reopen (run_ops ops_close init_trades_db) (run_ops ops_reopen init_trades_db) \<and>
   \<not> list_all closed_at_iff_closed (table_rows (run_ops ops_create_closed init_trades_db))"
  by code_simp

text \<open>
  C2, amended.  For every sequence of store operations from the empty store in which no trade
  is created with the status \<^verbatim>\<open>'closed'\<close> and no status other than \<^verbatim>\<open>'closed'\<close> is written
  to a closed trade: every trade in the store has \<^verbatim>\<open>closed_at\<close> exactly when its status is
  \<^verbatim>\<open>'closed'\<close>, and a trade that is closed at some point of the sequence is not open at any
  later point.
\<close>

theorem forward_ops_keep_invariant:
  assumes "forward_ops (ops1 @ ops2) init_trades_db"
  shows "list_all closed_at_iff_closed (table_rows (run_ops (ops1 @ ops2) init_trades_db)) \<and>
         no_reopen (run_ops ops1 init_trades_db) (run_ops (ops1 @ ops2) init_trades_db)"
proof -
  let ?st1 = "run_ops ops1 init_trades_db"
  let ?st2 = "run_ops (ops1 @ ops2) init_trades_db"
  from assms have f1: "forward_ops ops1 init_trades_db" and f2: "forward_ops ops2 ?st1"
    by (simp_all add: forward_ops_append)
  from forward_ops_preserve[OF store_inv_init f1] have inv1: "store_inv ?st1" by simp
  from forward_ops_preserve[OF store_inv_init assms] have inv2: "store_inv ?st2" by simp
  have "no_reopen ?st1 ?st2"
    unfolding no_reopen_def list_all_iff
  proof (intro ballI impI)
    fix r assume r: "r \<in> set (table_rows ?st1)" and cl: "r_status r = ''closed''"
    from inv1 r have le: "r_id r \<le> table_seq ?st1"
      by (simp add: store_inv_def list_all_iff)
    from inv1 r have "find_row (r_id r) ?st1 = Some r"
      by (simp add: store_inv_def find_row_distinct)
    with cl have "closed_or_gone (r_id r) ?st1" by (simp add: closed_or_gone_def)
    with forward_ops_preserve[OF inv1 f2, of "r_id r"] le
    have "closed_or_gone (r_id r) ?st2" by (simp add: run_ops_append)
    then show "case find_row (r_id r) ?st2 of None \<Rightarrow> True | Some r' \<Rightarrow> r_status r' \<noteq> ''open''"
      by (auto simp: closed_or_gone_def split: option.splits)
  qed
  with inv2 show ?thesis by (simp add: store_inv_def)
qed

theorem forward_ops_keep_invariant_witness:
  "forward_ops (ops_close @ [(scenario_clock, SetStatus 1 ''closed'' (Some ''2025-06-02''))])
     init_trades_db \<and>
   list_all closed_at_iff_closed
     (table_rows (run_ops (ops_close @ [(scenario_clock, SetStatus 1 ''closed'' (Some ''2025-06-02''))])
        init_trades_db)) \<and>
   no_reopen (run_ops ops_close init_trades_db)
     (run_ops (ops_close @ [(scenario_clock, SetStatus 1 ''closed'' (Some ''2025-06-02''))])
        init_trades_db) \<and>
   map r_status (table_rows (run_ops ops_close init_trades_db)) = [''closed'']"
proof -
  have h: "forward_ops (ops_close @ [(scenario_clock, SetStatus 1 ''closed'' (Some ''2025-06-02''))])
             init_trades_db"
    by code_simp
  have c: "map r_status (table_rows (run_ops ops_close init_trades_db)) = [''closed'']"
    by code_simp
  from forward_ops_keep_invariant[OF h] h c show ?thesis by blast
qed

section \<open>Properties of the monitor pass\<close>

lemma lookup_id_open_dict: "lookup_id (zip open_keys (open_columns r)) = Inr (r_id r)"
  by (simp add: lookup_id_def open_keys_def open_columns_def)

lemma lookup_id_fetch_open_trades:
  "map lookup_id (fetch_open_trades st)
     = map (\<lambda>r. Inr (r_id r)) (filter (\<lambda>r. r_status r = ''open'') (table_rows st))"
  by (simp add: fetch_open_trades_def lookup_id_open_dict)

lemma distinct_lookup_id_fetch_open_trades:
  assumes "distinct (map r_id (table_rows st))"
  shows "distinct (map lookup_id (fetch_open_trades st))"
proof -
  have "distinct (map r_id (filter (\<lambda>r. r_status r = ''open'') (table_rows st)))"
    using assms by (rule distinct_map_filter)
  then have "distinct (map (\<lambda>r. (Inr (r_id r) :: error + int))
               (filter (\<lambda>r. r_status r = ''open'') (table_rows st)))"
    by (simp add: distinct_map inj_on_def)
  then show ?thesis by (simp only: lookup_id_fetch_open_trades)
qed

text \<open>Every dictionary of \<^verbatim>\<open>fetch_open_trades\<close> has the id of an open row of the store.\<close>

lemma fetch_open_trades_row:
  assumes "distinct (map r_id (table_rows st))" and "t \<in> set (fetch_open_trades st)"
  shows "\<exists>i r. lookup_id t = Inr i \<and> find_row i st = Some r \<and> r_status r = ''open''"
proof -
  from assms(2) obtain r where r: "r \<in> set (table_rows st)" "r_status r = ''open''"
    and t: "t = zip open_keys (open_columns r)"
    by (auto simp: fetch_open_trades_def)
  have "find (\<lambda>x. r_id x = r_id r) rs = Some r"
    if "distinct (map r_id rs)" "r \<in> set rs" for rs :: "trade_row list"
    using that by (induction rs) force+
  with assms(1) r have "find_row (r_id r) st = Some r"
    by (simp add: find_row_def)
  with r t show ?thesis
    by (auto simp: lookup_id_open_dict)
qed

lemma map_option_if_id:
  "map_option (\<lambda>r. if r_id r = i then g r else r) (find_row i st) = map_option g (find_row i st)"
  by (cases "find_row i st") (auto dest: find_row_SomeD)

lemma find_row_update_other:
  assumes "update_trade_status clk j status closed_at st = Inr st'" and "i \<noteq> j"
  shows "find_row i st' = find_row i st"
proof -
  from assms(1) obtain c where st': "st' = execute_update status c j st"
    by (auto simp: update_trade_status_eq split: if_splits)
  show ?thesis
  proof (cases "find_row i st")
    case None
    then show ?thesis by (simp add: st' find_row_execute_update)
  next
    case (Some r)
    then have "r_id r = i" by (simp add: find_row_SomeD)
    with assms(2) Some show ?thesis by (simp add: st' find_row_execute_update)
  qed
qed

lemma find_row_update_closed:
  assumes "update_trade_status clk i ''closed'' None st = Inr st'"
  shows "find_row i st' =
           map_option (\<lambda>r. r\<lparr>r_status := ''closed'', r_closed_at := Some (est_now_isoformat clk)\<rparr>)
             (find_row i st)"
proof -
  from assms have "st' = execute_update ''closed'' (Some (est_now_isoformat clk)) i st"
    by (auto simp: update_trade_status_eq split: if_splits)
  then show ?thesis
    by (simp cong: if_cong add: find_row_execute_update
          map_option_if_id[where g = "\<lambda>r. r\<lparr>r_status := s, r_closed_at := c\<rparr>" for s c])
qed

lemma close_trade_error_db:
  "close_trade env clk message trade w = (w', Some e) \<Longrightarrow> db w' = db w"
  by (auto simp: close_trade_def Let_def split: sum.splits if_splits)

lemma close_trade_find_row:
  assumes "close_trade env clk message trade w = (w', res)" and "lookup_id trade \<noteq> Inr i"
  shows "find_row i (db w') = find_row i (db w)"
  using assms
  by (auto simp: close_trade_def Let_def split: sum.splits if_splits
        dest!: find_row_update_other[where i = i])

lemma close_trade_effect:
  assumes "close_trade env clk message trade w = (w', None)" and "lookup_id trade = Inr i"
  shows "find_row i (db w') =
           map_option (\<lambda>r. r\<lparr>r_status := ''closed'', r_closed_at := Some (est_now_isoformat clk)\<rparr>)
             (find_row i (db w))"
  using assms
  by (auto simp: close_trade_def Let_def split: sum.splits if_splits
        dest!: find_row_update_closed)

lemma monitor_trade_error_db:
  "monitor_trade env k trade w = (w', Some e) \<Longrightarrow> db w' = db w"
  by (auto simp: monitor_trade_def split: sum.splits if_splits bool.splits
        dest: close_trade_error_db)

lemma monitor_trade_find_row:
  assumes "monitor_trade env k trade w = (w', res)" and "lookup_id trade \<noteq> Inr i"
  shows "find_row i (db w') = find_row i (db w)"
  using assms
  by (auto simp: monitor_trade_def split: sum.splits if_splits bool.splits
        dest: close_trade_find_row)

text \<open>A trade whose step raises nothing is closed when the stop trigger fires or it is
  expired, and left as it was otherwise.\<close>

lemma monitor_trade_effect:
  assumes "monitor_trade env k trade w = (w', None)" and "lookup_id trade = Inr i"
  shows "find_row i (db w') =
           (if check_stop_trigger trade \<or>
               is_trade_expired (ny_now (clock env (2 * k))) trade = Inr True
            then map_option
                   (\<lambda>r. r\<lparr>r_status := ''closed'',
                          r_closed_at := Some (est_now_isoformat (clock env (2 * k + 1)))\<rparr>)
                   (find_row i (db w))
            else find_row i (db w))"
proof (cases "check_stop_trigger trade")
  case True
  with assms show ?thesis
    by (simp add: monitor_trade_def close_trade_effect)
next
  case False
  show ?thesis
  proof (cases "is_trade_expired (ny_now (clock env (2 * k))) trade")
    case (Inl e)
    with False assms(1) show ?thesis by (simp add: monitor_trade_def)
  next
    case (Inr b)
    with False assms show ?thesis
      by (cases b) (simp_all add: monitor_trade_def close_trade_effect)
  qed
qed

lemma monitor_trades_find_row:
  assumes "monitor_trades env k trades w = (w', res)" and "Inr i \<notin> lookup_id ` set trades"
  shows "find_row i (db w') = find_row i (db w)"
  using assms
proof (induction trades arbitrary: k w)
  case Nil
  then show ?case by simp
next
  case (Cons trade trades)
  obtain w1 r1 where s: "monitor_trade env k trade w = (w1, r1)"
    by (cases "monitor_trade env k trade w")
  from Cons.prems(2) have n: "lookup_id trade \<noteq> Inr i" and ns: "Inr i \<notin> lookup_id ` set trades"
    by auto
  from monitor_trade_find_row[OF s n] have f: "find_row i (db w1) = find_row i (db w)" .
  show ?case
  proof (cases r1)
    case None
    with Cons.prems(1) s have "monitor_trades env (Suc k) trades w1 = (w', res)" by simp
    from Cons.IH[OF this ns] f show ?thesis by simp
  next
    case (Some e)
    with Cons.prems(1) s have "w' = w1" by simp
    with f show ?thesis by simp
  qed
qed

lemma monitor_trades_effect:
  assumes "monitor_trades env k trades w = (w', None)"
    and "distinct (map lookup_id trades)" and "j < length trades"
    and "lookup_id (trades ! j) = Inr i"
  shows "find_row i (db w') =
           (if check_stop_trigger (trades ! j) \<or>
               is_trade_expired (ny_now (clock env (2 * (k + j)))) (trades ! j) = Inr True
            then map_option
                   (\<lambda>r. r\<lparr>r_status := ''closed'',
                          r_closed_at := Some (est_now_isoformat (clock env (2 * (k + j) + 1)))\<rparr>)
                   (find_row i (db w))
            else find_row i (db w))"
  using assms
proof (induction trades arbitrary: k w j)
  case Nil
  then show ?case by simp
next
  case (Cons trade trades)
  obtain w1 r1 where s: "monitor_trade env k trade w = (w1, r1)"
    by (cases "monitor_trade env k trade w")
  with Cons.prems(1) have r1: "r1 = None"
    by (cases r1) simp_all
  with Cons.prems(1) s have tl: "monitor_trades env (Suc k) trades w1 = (w', None)"
    by simp
  show ?case
  proof (cases j)
    case 0
    with Cons.prems(4) have i: "lookup_id trade = Inr i" by simp
    with Cons.prems(2) have "Inr i \<notin> lookup_id ` set trades" by auto
    from monitor_trades_find_row[OF tl this]
    have "find_row i (db w') = find_row i (db w1)" .
    with monitor_trade_effect[OF s[unfolded r1] i] show ?thesis
      by (simp add: 0)
  next
    case (Suc j')
    with Cons.prems have j': "j' < length trades" and i: "lookup_id (trades ! j') = Inr i"
      and d: "distinct (map lookup_id trades)"
      by simp_all
    from Cons.prems(2) j' i have "lookup_id trade \<noteq> Inr i"
      by (metis distinct.simps(2) list.simps(9) nth_mem image_eqI list.set_map)
    from monitor_trade_find_row[OF s this]
    have f: "find_row i (db w1) = find_row i (db w)" .
    from Cons.IH[OF tl d j' i] f show ?thesis
      by (simp add: Suc)
  qed
qed

lemma monitor_trades_append:
  "monitor_trades env k (xs @ ys) w =
     (case monitor_trades env k xs w of
        (w', Some e) \<Rightarrow> (w', Some e)
      | (w', None) \<Rightarrow> monitor_trades env (k + length xs) ys w')"
  by (induction xs arbitrary: k w) (auto split: prod.splits option.splits)

text \<open>
  C3, as the code has it.  In a store with the trades 1 (\<^verbatim>\<open>"BTC 13pm"\<close>) and 2
  (\<^verbatim>\<open>"BTC 2pm"\<close>) at 14:05 New York time, trade 2 is expired, yet after the pass both
  trades are open: the \<^verbatim>\<open>ValueError\<close> of trade 1 ended the pass.  Likewise with two
  trades on \<^verbatim>\<open>"BTC 2pm"\<close> when the storage engine fails on the closing of trade 1.
\<close>

theorem monitor_isolation_counterexample:
  "is_trade_expired (ny_now scenario_clock) (fetch_open_trades store_two_trades ! 1) = Inr True \<and>
   map r_status (table_rows (db (monitor_pass scenario_env \<lparr>db = store_two_trades, events = []\<rparr>)))
     = [''open'', ''open''] \<and>
   events (monitor_pass scenario_env \<lparr>db = store_two_trades, events = []\<rparr>)
     = [Print (MonitorError ValueError)] \<and>
   is_trade_expired (ny_now scenario_clock) (fetch_open_trades store_two_due ! 1) = Inr True \<and>
   map r_status (table_rows (db (monitor_pass failing_env \<lparr>db = store_two_due, events = []\<rparr>)))
     = [''open'', ''open''] \<and>
   events (monitor_pass failing_env \<lparr>db = store_two_due, events = []\<rparr>)
     = [Print (AutoClosingExpired 1), Print (MonitorError StorageError)]"
  by code_simp

text \<open>
  C3, amended.  For every monitor pass over the open trades: if evaluating or closing one
  trade raises an error, the error is caught and reported rather than propagated; every trade
  before it has been evaluated, and its row is closed with the time stamp of its closing if
  the stop trigger fired or it was expired, and as before the pass otherwise; the row of the
  trade that raised and the rows of the remaining trades of the pass are as they were before
  the pass (the remaining trades are not evaluated in this pass); and the loop goes on to its
  next period after the delay of 5.
\<close>

theorem monitor_pass_stops_at_first_error:
  assumes "\<not> db_fails env FetchOpenTrades"
    and "distinct (map r_id (table_rows (db w)))"
    and "fetch_open_trades (db w) = before @ trade # rest"
    and "monitor_trades env 0 before w = (w1, None)"
    and "monitor_trade env (length before) trade w1 = (w2, Some e)"
  shows "monitor_pass env w = w2\<lparr>events := events w2 @ [Print (MonitorError e)]\<rparr> \<and>
         (\<forall>j < length before. \<exists>i r.
            lookup_id (before ! j) = Inr i \<and> find_row i (db w) = Some r \<and>
            find_row i (db (monitor_pass env w)) =
              Some (if check_stop_trigger (before ! j) \<or>
                       is_trade_expired (ny_now (clock env (2 * j))) (before ! j) = Inr True
                    then r\<lparr>r_status := ''closed'',
                           r_closed_at := Some (est_now_isoformat (clock env (2 * j + 1)))\<rparr>
                    else r)) \<and>
         (\<forall>t \<in> set (trade # rest). \<exists>i r.
            lookup_id t = Inr i \<and> find_row i (db w) = Some r \<and>
            find_row i (db (monitor_pass env w)) = Some r) \<and>
         (envs k = env \<longrightarrow>
            trade_monitor_loop (Suc n) envs k w =
              trade_monitor_loop n envs (Suc k)
                (w2\<lparr>events := events w2 @ [Print (MonitorError e), Sleep 5]\<rparr>))"
proof -
  have all: "monitor_trades env 0 (before @ trade # rest) w = (w2, Some e)"
    using assms(4,5) by (simp add: monitor_trades_append)
  then have pass: "monitor_pass env w = w2\<lparr>events := events w2 @ [Print (MonitorError e)]\<rparr>"
    using assms(1,3) by (simp add: monitor_pass_def)
  have same: "db w2 = db w1"
    using assms(5) by (rule monitor_trade_error_db)
  have dist: "distinct (map lookup_id (before @ trade # rest))"
    using distinct_lookup_id_fetch_open_trades[OF assms(2)] by (simp only: assms(3))
  have row: "\<exists>i r. lookup_id t = Inr i \<and> find_row i (db w) = Some r"
    if "t \<in> set (before @ trade # rest)" for t
    using fetch_open_trades_row[OF assms(2), of t] that by (auto simp: assms(3))
  have earlier: "\<exists>i r.
            lookup_id (before ! j) = Inr i \<and> find_row i (db w) = Some r \<and>
            find_row i (db (monitor_pass env w)) =
              Some (if check_stop_trigger (before ! j) \<or>
                       is_trade_expired (ny_now (clock env (2 * j))) (before ! j) = Inr True
                    then r\<lparr>r_status := ''closed'',
                           r_closed_at := Some (est_now_isoformat (clock env (2 * j + 1)))\<rparr>
                    else r)"
    if j: "j < length before" for j
  proof -
    from j have "before ! j \<in> set (before @ trade # rest)" by simp
    from row[OF this] obtain i r where i: "lookup_id (before ! j) = Inr i"
      and r: "find_row i (db w) = Some r" by blast
    from dist have "distinct (map lookup_id before)" by simp
    from monitor_trades_effect[OF assms(4) this j i] r same
    have "find_row i (db (monitor_pass env w)) =
              Some (if check_stop_trigger (before ! j) \<or>
                       is_trade_expired (ny_now (clock env (2 * j))) (before ! j) = Inr True
                    then r\<lparr>r_status := ''closed'',
                           r_closed_at := Some (est_now_isoformat (clock env (2 * j + 1)))\<rparr>
                    else r)"
      by (simp add: pass)
    with i r show ?thesis by blast
  qed
  have later: "\<exists>i r. lookup_id t = Inr i \<and> find_row i (db w) = Some r \<and>
            find_row i (db (monitor_pass env w)) = Some r"
    if t: "t \<in> set (trade # rest)" for t
  proof -
    from t have "t \<in> set (before @ trade # rest)" by auto
    from row[OF this] obtain i r where i: "lookup_id t = Inr i"
      and r: "find_row i (db w) = Some r" by blast
    from dist t i have "Inr i \<notin> lookup_id ` set before"
      by force
    from monitor_trades_find_row[OF assms(4) this] same r
    have "find_row i (db (monitor_pass env w)) = Some r"
      by (simp add: pass)
    with i r show ?thesis by blast
  qed
  have loop: "trade_monitor_loop (Suc n) envs k w =
              trade_monitor_loop n envs (Suc k)
                (w2\<lparr>events := events w2 @ [Print (MonitorError e), Sleep 5]\<rparr>)"
    if "envs k = env"
    using that by (simp add: pass Let_def)
  from pass earlier later loop show ?thesis by blast
qed

theorem monitor_pass_stops_at_first_error_witness:
  "map lookup_id (fetch_open_trades store_three_trades) = [Inr 1, Inr 2, Inr 3] \<and>
   map_option (\<lambda>r. (r_status r, r_closed_at r))
     (find_row 1 (db (monitor_pass scenario_env \<lparr>db = store_three_trades, events = []\<rparr>)))
     = Some (''closed'', Some ''2025-06-01T14:05:00-04:00'') \<and>
   map_option r_status
     (find_row 2 (db (monitor_pass scenario_env \<lparr>db = store_three_trades, events = []\<rparr>)))
     = Some ''open'' \<and>
   map_option r_status
     (find_row 3 (db (monitor_pass scenario_env \<lparr>db = store_three_trades, events = []\<rparr>)))
     = Some ''open'' \<and>
   events (monitor_pass scenario_env \<lparr>db = store_three_trades, events = []\<rparr>)
     = [Print (AutoClosingExpired 1), Print (MonitorError ValueError)] \<and>
   events (trade_monitor_loop (Suc 0) (\<lambda>k. scenario_env) 0 \<lparr>db = store_three_trades, events = []\<rparr>)
     = [Print (AutoClosingExpired 1), Print (MonitorError ValueError), Sleep 5]"
proof -
  let ?w = "\<lparr>db = store_three_trades, events = []\<rparr>"
  let ?a = "fetch_open_trades store_three_trades ! 0"
  let ?b = "fetch_open_trades store_three_trades ! 1"
  let ?c = "fetch_open_trades store_three_trades ! 2"
  let ?w1 = "fst (monitor_trades scenario_env 0 [?a] ?w)"
  let ?p = "monitor_pass scenario_env ?w"
  have loop0: "events (trade_monitor_loop 0 envs k (x\<lparr>events := events x @ ys\<rparr>)) = events x @ ys"
    for envs k x ys
    by simp
  have h1: "\<not> db_fails scenario_env FetchOpenTrades"
    by (simp add: scenario_env_def)
  have h2: "distinct (map r_id (table_rows (db ?w)))"
    by (simp add: store_three_trades_def insert_trade_def init_trades_db_def)
  have len: "length (fetch_open_trades store_three_trades) = 3"
    by code_simp
  then obtain a b c where "fetch_open_trades store_three_trades = [a, b, c]"
    by (auto simp: numeral_3_eq_3 length_Suc_conv)
  then have "fetch_open_trades store_three_trades = [?a, ?b, ?c]"
    by simp
  then have h3: "fetch_open_trades (db ?w) = [?a] @ ?b # [?c]"
    by simp
  have "snd (monitor_trades scenario_env 0 [?a] ?w) = None"
    by code_simp
  then have h4: "monitor_trades scenario_env 0 [?a] ?w = (?w1, None)"
    by (simp add: prod_eq_iff)
  have "monitor_trade scenario_env 1 ?b ?w1 = (?w1, Some ValueError)"
    by code_simp
  then have h5: "monitor_trade scenario_env (length [?a]) ?b ?w1 = (?w1, Some ValueError)"
    by simp
  have ids: "map lookup_id (fetch_open_trades store_three_trades) = [Inr 1, Inr 2, Inr 3]"
    by code_simp
  then have ia: "lookup_id ?a = Inr 1" and ib: "lookup_id ?b = Inr 2" and ic: "lookup_id ?c = Inr 3"
    using len by (simp_all add: list_eq_iff_nth_eq)
  have due: "is_trade_expired (ny_now (clock scenario_env (2 * 0))) ?a = Inr True"
    by code_simp
  have stamp: "est_now_isoformat (clock scenario_env (2 * 0 + 1)) = ''2025-06-01T14:05:00-04:00''"
    by code_simp
  have ev: "events ?w1 = [Print (AutoClosingExpired 1)]"
    by code_simp
  have before: "map_option (\<lambda>r. (r_status r, r_closed_at r)) (find_row 1 (db ?w)) = Some (''open'', None)"
    "map_option r_status (find_row 2 (db ?w)) = Some ''open''"
    "map_option r_status (find_row 3 (db ?w)) = Some ''open''"
    by (simp_all add: store_three_trades_def insert_trade_def init_trades_db_def find_row_def
          trade_13pm_def trade_2pm_def)
  note t = monitor_pass_stops_at_first_error[OF h1 h2 h3 h4 h5, of "\<lambda>k. scenario_env" 0 0]
  have pass: "?p = ?w1\<lparr>events := events ?w1 @ [Print (MonitorError ValueError)]\<rparr>"
    using t by (rule conjunct1)
  have "\<forall>j < length [?a]. \<exists>i r.
            lookup_id ([?a] ! j) = Inr i \<and> find_row i (db ?w) = Some r \<and>
            find_row i (db ?p) =
              Some (if check_stop_trigger ([?a] ! j) \<or>
                       is_trade_expired (ny_now (clock scenario_env (2 * j))) ([?a] ! j) = Inr True
                    then r\<lparr>r_status := ''closed'',
                           r_closed_at := Some (est_now_isoformat (clock scenario_env (2 * j + 1)))\<rparr>
                    else r)"
    using t by (rule conjunct1[OF conjunct2])
  moreover have "0 < length [?a]" by simp
  ultimately have "\<exists>i r.
            lookup_id ([?a] ! 0) = Inr i \<and> find_row i (db ?w) = Some r \<and>
            find_row i (db ?p) =
              Some (if check_stop_trigger ([?a] ! 0) \<or>
                       is_trade_expired (ny_now (clock scenario_env (2 * 0))) ([?a] ! 0) = Inr True
                    then r\<lparr>r_status := ''closed'',
                           r_closed_at := Some (est_now_isoformat (clock scenario_env (2 * 0 + 1)))\<rparr>
                    else r)"
    by blast
  then obtain i r where "lookup_id ([?a] ! 0) = Inr i" and "find_row i (db ?w) = Some r"
    and "find_row i (db ?p) =
              Some (if check_stop_trigger ([?a] ! 0) \<or>
                       is_trade_expired (ny_now (clock scenario_env (2 * 0))) ([?a] ! 0) = Inr True
                    then r\<lparr>r_status := ''closed'',
                           r_closed_at := Some (est_now_isoformat (clock scenario_env (2 * 0 + 1)))\<rparr>
                    else r)"
    by blast
  with ia due stamp have "find_row 1 (db ?p) =
           Some (r\<lparr>r_status := ''closed'', r_closed_at := Some ''2025-06-01T14:05:00-04:00''\<rparr>)"
    by simp
  then have one: "map_option (\<lambda>r. (r_status r, r_closed_at r)) (find_row 1 (db ?p))
                    = Some (''closed'', Some ''2025-06-01T14:05:00-04:00'')"
    by simp
  have later: "\<forall>t \<in> set (?b # [?c]). \<exists>i r.
            lookup_id t = Inr i \<and> find_row i (db ?w) = Some r \<and> find_row i (db ?p) = Some r"
    using t by (rule conjunct1[OF conjunct2[OF conjunct2]])
  have "?b \<in> set (?b # [?c])" by simp
  with later obtain i2 r2 where "lookup_id ?b = Inr i2" "find_row i2 (db ?w) = Some r2"
    "find_row i2 (db ?p) = Some r2"
    by blast
  with ib have "find_row 2 (db ?p) = find_row 2 (db ?w)"
    by simp
  with before(2) have two: "map_option r_status (find_row 2 (db ?p)) = Some ''open''"
    by simp
  have "?c \<in> set (?b # [?c])" by simp
  with later obtain i3 r3 where "lookup_id ?c = Inr i3" "find_row i3 (db ?w) = Some r3"
    "find_row i3 (db ?p) = Some r3"
    by blast
  with ic have "find_row 3 (db ?p) = find_row 3 (db ?w)"
    by simp
  with before(3) have three: "map_option r_status (find_row 3 (db ?p)) = Some ''open''"
    by simp
  have "(\<lambda>k. scenario_env) 0 = scenario_env \<longrightarrow>
          trade_monitor_loop (Suc 0) (\<lambda>k. scenario_env) 0 ?w =
              trade_monitor_loop 0 (\<lambda>k. scenario_env) (Suc 0)
                (?w1\<lparr>events := events ?w1 @ [Print (MonitorError ValueError), Sleep 5]\<rparr>)"
    using t by (rule conjunct2[OF conjunct2[OF conjunct2]])
  then have "trade_monitor_loop (Suc 0) (\<lambda>k. scenario_env) 0 ?w =
              trade_monitor_loop 0 (\<lambda>k. scenario_env) (Suc 0)
                (?w1\<lparr>events := events ?w1 @ [Print (MonitorError ValueError), Sleep 5]\<rparr>)"
    by blast
  then have "events (trade_monitor_loop (Suc 0) (\<lambda>k. scenario_env) 0 ?w) =
              events (trade_monitor_loop 0 (\<lambda>k. scenario_env) (Suc 0)
                (?w1\<lparr>events := events ?w1 @ [Print (MonitorError ValueError), Sleep 5]\<rparr>))"
    by (rule arg_cong)
  also have "\<dots> = events ?w1 @ [Print (MonitorError ValueError), Sleep 5]"
    by (rule loop0)
  also have "\<dots> = [Print (AutoClosingExpired 1), Print (MonitorError ValueError), Sleep 5]"
    unfolding ev by simp
  finally have loop: "events (trade_monitor_loop (Suc 0) (\<lambda>k. scenario_env) 0 ?w)
     = [Print (AutoClosingExpired 1), Print (MonitorError ValueError), Sleep 5]" .
  have "events ?p = events ?w1 @ [Print (MonitorError ValueError)]"
    unfolding pass by simp
  then have evs: "events ?p = [Print (AutoClosingExpired 1), Print (MonitorError ValueError)]"
    unfolding ev by simp
  from ids one two three evs loop show ?thesis by blast
qed

section \<open>Properties of the start of the monitor\<close>

text \<open>With calls that do not overlap, the threads that are alive are at most the thread that
  the global names, and every started thread has been created.\<close>

lemma start_trade_monitor_needed:
  assumes "alive p \<subseteq> set_option (monitor_thread p)" and "\<forall>t \<in> started p. t < created p"
    and "monitor_needed p"
  shows "alive p = {} \<and>
         start_trade_monitor p =
           Inr (p\<lparr>monitor_thread := Some (created p), alive := {created p},
                  started := insert (created p) (started p), created := Suc (created p)\<rparr>)"
proof -
  from assms(1,3) have e: "alive p = {}"
    by (cases "monitor_thread p") (auto simp: monitor_needed_def)
  from assms(2) have "created p \<notin> started p"
    by auto
  with e assms(3) show ?thesis
    by (simp add: start_trade_monitor_def start_thread_def create_thread_def Let_def)
qed

lemma start_trade_monitor_not_needed:
  assumes "\<not> monitor_needed p"
  shows "start_trade_monitor p = Inr p"
  using assms by (simp add: start_trade_monitor_def)

lemma process_step_inv:
  assumes "alive p \<subseteq> set_option (monitor_thread p)" and "\<forall>t \<in> started p. t < created p"
  shows "alive (process_step ev p) \<subseteq> set_option (monitor_thread (process_step ev p)) \<and>
         (\<forall>t \<in> started (process_step ev p). t < created (process_step ev p))"
proof (cases ev)
  case StartMonitor
  show ?thesis
  proof (cases "monitor_needed p")
    case True
    from start_trade_monitor_needed[OF assms True] assms(2) show ?thesis
      by (auto simp: StartMonitor process_step_def)
  next
    case False
    with assms show ?thesis
      by (simp add: StartMonitor process_step_def start_trade_monitor_not_needed)
  qed
next
  case (ThreadDies t)
  with assms show ?thesis
    by (auto simp: process_step_def)
qed

lemma run_process_inv:
  "alive (run_process evs) \<subseteq> set_option (monitor_thread (run_process evs)) \<and>
   (\<forall>t \<in> started (run_process evs). t < created (run_process evs))"
proof (induction evs rule: rev_induct)
  case Nil
  show ?case by (simp add: run_process_def initial_process_def)
next
  case (snoc ev evs)
  then show ?case
    using process_step_inv[of "run_process evs" ev] by (simp add: run_process_def)
qed

text \<open>A call whose three lines run with no other event in between is the step
  \<open>StartMonitor\<close>.\<close>

lemma lines_in_a_row:
  assumes "c \<notin> at_188 s" and "c \<notin> at_189 s"
  shows "call_step (Line189 c) (call_step (Line188 c) (call_step (Line187 c) s))
           = s\<lparr>proc := process_step StartMonitor (proc s)\<rparr>"
proof (cases "monitor_needed (proc s)")
  case True
  with assms show ?thesis
    by (cases "start_thread (create_thread (proc s))")
       (simp_all add: call_step_def process_step_def start_trade_monitor_def)
next
  case False
  with assms show ?thesis
    by (simp add: call_step_def process_step_def start_trade_monitor_def)
qed

text \<open>
  C9, as the code has it.  Two callers both pass the test of line 187 before either has
  started a thread; each then creates and starts a thread, and two monitors are running.
\<close>

theorem overlapping_calls_counterexample:
  "alive (proc (run_calls [Line187 0, Line187 1, Line188 0, Line189 0, Line188 1, Line189 1]))
     = {0, 1} \<and>
   card (alive (proc (run_calls [Line187 0, Line187 1, Line188 0, Line189 0, Line188 1, Line189 1])))
     = 2"
  by (simp add: run_calls_def call_step_def monitor_needed_def create_thread_def start_thread_def
        initial_process_def insert_commute)

text \<open>
  C9, amended.  When calls of \<^verbatim>\<open>start_trade_monitor\<close> do not overlap, each running its
  three lines with no other event in between: in every state that such calls and ends of
  threads lead to, at most one monitor is running.  In any state, a call while the thread of
  the global is alive returns with the state unchanged.  In a reachable state, a call while no
  monitor is running (none was started, or the last one ended) returns without an error,
  creates one new thread, which is then the only running monitor and the value of the global.
\<close>

theorem start_trade_monitor_idempotent:
  "card (alive (run_process evs)) \<le> 1 \<and>
   (monitor_thread p \<noteq> None \<and> the (monitor_thread p) \<in> alive p \<longrightarrow>
      start_trade_monitor p = Inr p) \<and>
   (monitor_thread (run_process evs) = None \<or>
      the (monitor_thread (run_process evs)) \<notin> alive (run_process evs) \<longrightarrow>
        alive (run_process evs) = {} \<and>
        (\<exists>p'. start_trade_monitor (run_process evs) = Inr p' \<and>
           alive p' = {created (run_process evs)} \<and>
           monitor_thread p' = Some (created (run_process evs)) \<and>
           created p' = Suc (created (run_process evs)))) \<and>
   (c \<notin> at_188 s \<and> c \<notin> at_189 s \<longrightarrow>
      call_step (Line189 c) (call_step (Line188 c) (call_step (Line187 c) s))
        = s\<lparr>proc := process_step StartMonitor (proc s)\<rparr>)"
proof (intro conjI impI)
  have sub: "alive (run_process evs) \<subseteq> set_option (monitor_thread (run_process evs))"
    using run_process_inv by blast
  have le: "card (set_option (monitor_thread (run_process evs))) \<le> 1"
    by (cases "monitor_thread (run_process evs)") auto
  have fin: "finite (set_option (monitor_thread (run_process evs)))"
    by (cases "monitor_thread (run_process evs)") auto
  from card_mono[OF fin sub] le show "card (alive (run_process evs)) \<le> 1"
    by (rule order_trans)
next
  assume "monitor_thread p \<noteq> None \<and> the (monitor_thread p) \<in> alive p"
  then have "\<not> monitor_needed p"
    by (simp add: monitor_needed_def)
  then show "start_trade_monitor p = Inr p"
    by (rule start_trade_monitor_not_needed)
next
  assume "monitor_thread (run_process evs) = None \<or>
      the (monitor_thread (run_process evs)) \<notin> alive (run_process evs)"
  then have n: "monitor_needed (run_process evs)"
    by (simp add: monitor_needed_def)
  have i1: "alive (run_process evs) \<subseteq> set_option (monitor_thread (run_process evs))"
    and i2: "\<forall>t \<in> started (run_process evs). t < created (run_process evs)"
    using run_process_inv by blast+
  note r = start_trade_monitor_needed[OF i1 i2 n]
  from r show "alive (run_process evs) = {}"
    by (rule conjunct1)
  from r show "\<exists>p'. start_trade_monitor (run_process evs) = Inr p' \<and>
           alive p' = {created (run_process evs)} \<and>
           monitor_thread p' = Some (created (run_process evs)) \<and>
           created p' = Suc (created (run_process evs))"
    by simp
next
  assume "c \<notin> at_188 s \<and> c \<notin> at_189 s"
  then show "call_step (Line189 c) (call_step (Line188 c) (call_step (Line187 c) s))
        = s\<lparr>proc := process_step StartMonitor (proc s)\<rparr>"
    by (simp add: lines_in_a_row)
qed

theorem start_trade_monitor_idempotent_witness:
  "monitor_thread (run_process [StartMonitor]) = Some 0 \<and>
   0 \<in> alive (run_process [StartMonitor]) \<and>
   start_trade_monitor (run_process [StartMonitor]) = Inr (run_process [StartMonitor]) \<and>
   the (monitor_thread (run_process [StartMonitor, StartMonitor, ThreadDies 0]))
     \<notin> alive (run_process [StartMonitor, StartMonitor, ThreadDies 0]) \<and>
   (case start_trade_monitor (run_process [StartMonitor, StartMonitor, ThreadDies 0]) of
      Inl e \<Rightarrow> {} | Inr p' \<Rightarrow> alive p') = {1} \<and>
   card (alive (run_process [StartMonitor, StartMonitor, ThreadDies 0, StartMonitor])) \<le> 1"
proof -
  let ?s0 = "\<lparr>proc = initial_process, at_188 = {}, at_189 = {}\<rparr>"
  have a: "monitor_thread (run_process [StartMonitor]) = Some 0 \<and>
           0 \<in> alive (run_process [StartMonitor])"
    by (simp add: run_process_def process_step_def start_trade_monitor_def initial_process_def
          monitor_needed_def create_thread_def start_thread_def)
  have b: "the (monitor_thread (run_process [StartMonitor, StartMonitor, ThreadDies 0]))
             \<notin> alive (run_process [StartMonitor, StartMonitor, ThreadDies 0])"
    by (simp add: run_process_def process_step_def start_trade_monitor_def initial_process_def
          monitor_needed_def create_thread_def start_thread_def)
  have c: "created (run_process [StartMonitor, StartMonitor, ThreadDies 0]) = 1"
    by (simp add: run_process_def process_step_def start_trade_monitor_def initial_process_def
          monitor_needed_def create_thread_def start_thread_def)
  note t1 = start_trade_monitor_idempotent
         [of "[StartMonitor, StartMonitor, ThreadDies 0, StartMonitor]" "run_process [StartMonitor]"
             0 ?s0]
  note t2 = start_trade_monitor_idempotent
         [of "[StartMonitor, StartMonitor, ThreadDies 0]" "run_process [StartMonitor]" 0 ?s0]
  from a have "monitor_thread (run_process [StartMonitor]) \<noteq> None \<and>
                the (monitor_thread (run_process [StartMonitor])) \<in> alive (run_process [StartMonitor])"
    by simp
  with t1[THEN conjunct2, THEN conjunct1]
  have 1: "start_trade_monitor (run_process [StartMonitor]) = Inr (run_process [StartMonitor])"
    by (rule mp)
  have 3: "card (alive (run_process [StartMonitor, StartMonitor, ThreadDies 0, StartMonitor])) \<le> 1"
    using t1 by (rule conjunct1)
  from b have "monitor_thread (run_process [StartMonitor, StartMonitor, ThreadDies 0]) = None \<or>
      the (monitor_thread (run_process [StartMonitor, StartMonitor, ThreadDies 0]))
        \<notin> alive (run_process [StartMonitor, StartMonitor, ThreadDies 0])"
    by (rule disjI2)
  with t2[THEN conjunct2, THEN conjunct2, THEN conjunct1]
  have "alive (run_process [StartMonitor, StartMonitor, ThreadDies 0]) = {} \<and>
        (\<exists>p'. start_trade_monitor (run_process [StartMonitor, StartMonitor, ThreadDies 0]) = Inr p' \<and>
           alive p' = {created (run_process [StartMonitor, StartMonitor, ThreadDies 0])} \<and>
           monitor_thread p' = Some (created (run_process [StartMonitor, StartMonitor, ThreadDies 0])) \<and>
           created p' = Suc (created (run_process [StartMonitor, StartMonitor, ThreadDies 0])))"
    by (rule mp)
  then obtain p' where
    "start_trade_monitor (run_process [StartMonitor, StartMonitor, ThreadDies 0]) = Inr p'"
    "alive p' = {created (run_process [StartMonitor, StartMonitor, ThreadDies 0])}"
    by blast
  with c have 2: "(case start_trade_monitor (run_process [StartMonitor, StartMonitor, ThreadDies 0]) of
      Inl e \<Rightarrow> {} | Inr p' \<Rightarrow> alive p') = {1}"
    by simp
  from a b 1 2 3 show ?thesis by blast
qed

end
